theory Spec2Isabelle
  imports Complex_Main "HOL-Library.AList" "HOL-Library.Char_ord" "HOL-Library.List_Lexorder"
begin

section \<open>The token cache of lru.go\<close>

text \<open>
  The cache of \<^verbatim>\<open>lru.go\<close> is a map from token strings to pointers to items, and a
  doubly linked list (\<^verbatim>\<open>container/list\<close>) of the same pointers, most recently used
  first. Both structures share the items, and the code writes to an item through either
  of them, so the items live in an explicit store: an address is a natural number,
  \<open>heap\<close> gives the item at an address, and \<open>nextAddr\<close> is the next address that
  \<^verbatim>\<open>&tokenCacheItem{...}\<close> hands out. The field \<^verbatim>\<open>listElement\<close> of an item is the
  occurrence of its own address in \<open>list\<close>.

  The mutex is left out: every function below is one sequential call. A time is a number
  of nanoseconds, and each call is given the reading \<open>now\<close> of the clock that
  \<^verbatim>\<open>time.Now()\<close> returns during that call. \<^verbatim>\<open>Duration.Seconds()\<close> is compared with
  \<^verbatim>\<open>float64(minTimeInCache)\<close> exactly, that is, on the nanoseconds.
\<close>

record token =
  token :: string
  secret :: string

type_synonym addr = nat

record tokenCacheItem =
  tok :: token
  timeIn :: int

type_synonym error = "string option"

record tokenCache =
  remCapacity :: int
  minTimeInCache :: int
  items :: "(string \<times> addr) list"
  list :: "addr list"
  heap :: "addr \<Rightarrow> tokenCacheItem"
  nextAddr :: addr

definition emptyToken :: token where
  "emptyToken = \<lparr>token = [], secret = []\<rparr>"

definition newTokenCache :: "int \<Rightarrow> int \<Rightarrow> tokenCache" where
  "newTokenCache capacity minTimeInCacheSeconds =
     \<lparr>remCapacity = capacity,
      minTimeInCache = minTimeInCacheSeconds,
      items = [],
      list = [],
      heap = (\<lambda>_. \<lparr>tok = emptyToken, timeIn = 0\<rparr>),
      nextAddr = 0\<rparr>"

text \<open>\<^verbatim>\<open>size\<close> is \<^verbatim>\<open>len(c.items)\<close>, the number of keys of the map.\<close>

definition size_cache :: "tokenCache \<Rightarrow> int" where
  "size_cache c = int (length (items c))"

text \<open>
  \<^verbatim>\<open>promote\<close> stamps the item with the clock and moves its list element to the front;
  \<^verbatim>\<open>MoveToFront\<close> leaves the list alone when the element is not in it.
\<close>

definition promote :: "tokenCache \<Rightarrow> addr \<Rightarrow> int \<Rightarrow> tokenCache" where
  "promote c item now =
     c\<lparr>heap := (heap c)(item := (heap c item)\<lparr>timeIn := now\<rparr>),
       list := (if item \<in> set (list c) then item # remove1 item (list c) else list c)\<rparr>"

text \<open>
  \<^verbatim>\<open>getToken\<close> returns the pair of Go: the token and the error, \<open>None\<close> for \<^verbatim>\<open>nil\<close>.
\<close>

definition getToken :: "tokenCache \<Rightarrow> string \<Rightarrow> int \<Rightarrow> tokenCache \<times> token \<times> error" where
  "getToken c tokenString now =
     (case map_of (items c) tokenString of
        None \<Rightarrow> (c, emptyToken, Some (''Could not find token for '' @ tokenString @ ''.''))
      | Some item \<Rightarrow>
          (let c' = promote c item now in (c', tok (heap c' item), None)))"

text \<open>
  The loop of \<^verbatim>\<open>trimCache\<close>: the first argument is the number of rounds that are left
  of the 50, \<open>success\<close> is the variable of the same name.
\<close>

fun trimLoop :: "nat \<Rightarrow> tokenCache \<Rightarrow> int \<Rightarrow> bool \<Rightarrow> tokenCache \<times> bool" where
  "trimLoop 0 c now success = (c, success)"
| "trimLoop (Suc n) c now success =
     (if list c = [] then (c, success)
      else
        let tail = last (list c);
            item = heap c tail;
            c1 = c\<lparr>list := butlast (list c),
                   items := AList.delete (token (tok item)) (items c),
                   remCapacity := remCapacity c + 1\<rparr>
        in if now - timeIn item < minTimeInCache c * 1000000000 then (c1, True)
           else trimLoop n c1 now True)"

definition trimCache :: "tokenCache \<Rightarrow> int \<Rightarrow> tokenCache \<times> bool" where
  "trimCache c now = trimLoop 50 c now False"

text \<open>
  The two branches of \<^verbatim>\<open>addToken\<close> after the lookup: \<open>setTok\<close> is the assignment
  \<^verbatim>\<open>item.tok = oauthToken\<close> to the item that was found, \<open>insertNew\<close> the allocation of a
  new item, pushed to the front of the list and entered in the map.
\<close>

definition insertNew :: "tokenCache \<Rightarrow> token \<Rightarrow> int \<Rightarrow> tokenCache" where
  "insertNew c oauthToken now =
     (let item = nextAddr c in
      c\<lparr>heap := (heap c)(item := \<lparr>tok = oauthToken, timeIn = now\<rparr>),
        nextAddr := Suc item,
        list := item # list c,
        items := AList.update (token oauthToken) item (items c),
        remCapacity := remCapacity c - 1\<rparr>)"

definition setTok :: "tokenCache \<Rightarrow> addr \<Rightarrow> token \<Rightarrow> tokenCache" where
  "setTok c item oauthToken = c\<lparr>heap := (heap c)(item := (heap c item)\<lparr>tok := oauthToken\<rparr>)\<rparr>"

definition addToken :: "tokenCache \<Rightarrow> token \<Rightarrow> int \<Rightarrow> tokenCache \<times> bool" where
  "addToken c oauthToken now =
     (let (c1, ok) = (if remCapacity c \<le> 0 then trimCache c now else (c, True)) in
      if \<not> ok then (c1, False)
      else
        (case map_of (items c1) (token oauthToken) of
           Some item \<Rightarrow> (promote (setTok c1 item oauthToken) item now, True)
         | None \<Rightarrow> (insertNew c1 oauthToken now, True)))"

section \<open>The OAuth 1.0 provider of oauth1.go and goauth.go\<close>

subsection \<open>Strings\<close>

text \<open>
  Strings are byte strings, as in Go. \<^verbatim>\<open>url.QueryEscape\<close> of \<^verbatim>\<open>net/url\<close> keeps letters,
  digits and \<^verbatim>\<open>-_.~\<close>, writes a space as \<^verbatim>\<open>+\<close> and every other byte as \<^verbatim>\<open>%XX\<close> with
  upper-case hexadecimal digits. \<^verbatim>\<open>strings.ToUpper\<close> is modelled on the ASCII letters;
  the bytes above 127 are kept (Go maps the runes that they encode). \<open>hexDigit\<close> is
  only applied to numbers below 16.
\<close>

definition hexDigit :: "nat \<Rightarrow> char" where
  "hexDigit n = ''0123456789ABCDEF'' ! n"

definition shouldEscape :: "char \<Rightarrow> bool" where
  "shouldEscape c =
     (let n = (of_char c :: nat) in
      \<not> ((97 \<le> n \<and> n \<le> 122) \<or> (65 \<le> n \<and> n \<le> 90) \<or> (48 \<le> n \<and> n \<le> 57) \<or>
         c = CHR ''-'' \<or> c = CHR ''_'' \<or> c = CHR ''.'' \<or> c = CHR ''~''))"

definition escapeByte :: "char \<Rightarrow> string" where
  "escapeByte c =
     (if shouldEscape c
      then if c = CHR '' '' then ''+''
           else [CHR ''%'', hexDigit (of_char c div 16), hexDigit (of_char c mod 16)]
      else [c])"

definition QueryEscape :: "string \<Rightarrow> string" where
  "QueryEscape s = concat (map escapeByte s)"

definition upperByte :: "char \<Rightarrow> char" where
  "upperByte c =
     (let n = (of_char c :: nat) in if 97 \<le> n \<and> n \<le> 122 then char_of (n - 32) else c)"

definition ToUpper :: "string \<Rightarrow> string" where
  "ToUpper s = map upperByte s"

text \<open>The decimal digits of an integer, as \<^verbatim>\<open>%v\<close> and \<^verbatim>\<open>fmt.Sprint\<close> print it.\<close>

function posDigits :: "int \<Rightarrow> string" where
  "posDigits i =
     (if i < 10 then [hexDigit (nat i)] else posDigits (i div 10) @ [hexDigit (nat (i mod 10))])"
  by pat_completeness auto
termination
  by (relation "measure nat") auto

definition Sprint :: "int \<Rightarrow> string" where
  "Sprint i = (if i < 0 then CHR ''-'' # posDigits (- i) else posDigits i)"

subsection \<open>Constants and records\<close>

text \<open>The constants of \<^verbatim>\<open>oauth1.go\<close> and \<^verbatim>\<open>goauth.go\<close>.\<close>

abbreviation oauthPreamble :: string where "oauthPreamble \<equiv> ''OAuth''"

abbreviation oauthNonce :: string where "oauthNonce \<equiv> ''oauth_nonce''"

abbreviation oauthSignature :: string where "oauthSignature \<equiv> ''oauth_signature''"

abbreviation oauthSignatureMethod :: string where "oauthSignatureMethod \<equiv> ''oauth_signature_method''"

abbreviation oauthCallback :: string where "oauthCallback \<equiv> ''oauth_callback''"

abbreviation oauthConsumerKey :: string where "oauthConsumerKey \<equiv> ''oauth_consumer_key''"

abbreviation oauthTimestamp :: string where "oauthTimestamp \<equiv> ''oauth_timestamp''"

abbreviation oauthVersion :: string where "oauthVersion \<equiv> ''oauth_version''"

abbreviation oauthToken :: string where "oauthToken \<equiv> ''oauth_token''"

abbreviation oauthSecretToken :: string where "oauthSecretToken \<equiv> ''oauth_token_secret''"

abbreviation oauthVerifier :: string where "oauthVerifier \<equiv> ''oauth_verifier''"

abbreviation OAuth1HeaderTransmissionType :: int where "OAuth1HeaderTransmissionType \<equiv> 1"

abbreviation OAuth1QueryParamTramssionType :: int where "OAuth1QueryParamTramssionType \<equiv> 2"

abbreviation OAuth1DefaultTransmissionType :: int where "OAuth1DefaultTransmissionType \<equiv> 1"

abbreviation OAuthVerbGet :: string where "OAuthVerbGet \<equiv> ''GET''"

abbreviation OAuthVerbPost :: string where "OAuthVerbPost \<equiv> ''POST''"

abbreviation OAuthVersion1 :: string where "OAuthVersion1 \<equiv> ''1.0''"

record OAuth1ServiceProviderConfig =
  ProviderName :: string
  ClientID :: string
  ClientSecret :: string
  AuthURL :: string
  TokenURL :: string
  UserInfoVerb :: string
  UserInfoURL :: string
  RequestTokenVerb :: string
  RequestTokenURL :: string
  AuthTransmissionType :: int
  RedirectURL :: string

record OAuth1ServiceProvider =
  config :: OAuth1ServiceProviderConfig

record oauthPair =
  key :: string
  "value" :: string

record UserData =
  UserID :: string
  Email :: string
  FullName :: string
  GivenName :: string
  FamilyName :: string
  ScreenName :: string
  PhotoURL :: string
  OAuthProvider :: string
  OAuthVersion :: string
  OAuthToken :: string
  OAuthTokenType :: string

definition zeroUserData :: UserData where
  "zeroUserData =
     \<lparr>UserID = [], Email = [], FullName = [], GivenName = [], FamilyName = [],
      ScreenName = [], PhotoURL = [], OAuthProvider = [], OAuthVersion = [],
      OAuthToken = [], OAuthTokenType = []\<rparr>"

definition NewOAuth1ServiceProvider :: "OAuth1ServiceProviderConfig \<Rightarrow> OAuth1ServiceProvider" where
  "NewOAuth1ServiceProvider cfg =
     (let c1 = cfg\<lparr>ProviderName := ToUpper (ProviderName cfg)\<rparr>;
          c2 = (if length (RequestTokenVerb c1) = 0 then c1\<lparr>RequestTokenVerb := OAuthVerbPost\<rparr> else c1);
          c3 = (if length (UserInfoVerb c2) = 0 then c2\<lparr>UserInfoVerb := OAuthVerbGet\<rparr> else c2);
          c4 = (if AuthTransmissionType c3 < 1
                then c3\<lparr>AuthTransmissionType := OAuth1DefaultTransmissionType\<rparr> else c3)
      in \<lparr>config = c4\<rparr>)"

subsection \<open>Library functions and the outside world\<close>

text \<open>
  A call either returns or panics. What the code takes from the standard library without
  this repository defining it is a field of \<open>library\<close>: the HMAC-SHA1 of a message (the
  second argument) under a key (the first), the standard base64 encoding,
  \<^verbatim>\<open>url.ParseQuery\<close> (the values and the error), the JSON decoder (the object and the
  error), whether \<^verbatim>\<open>http.NewRequest\<close> accepts a verb and a URL, and the two printers that
  \<^verbatim>\<open>toStringValue\<close> calls, \<^verbatim>\<open>strconv.FormatFloat\<close> and \<^verbatim>\<open>%v\<close> on an array or an object. A
  JSON number is the rational value of its \<^verbatim>\<open>float64\<close>.

  What a call reads from the outside is a field of \<open>world\<close>: \<open>unixTime w l n\<close> and
  \<open>randIntn w l n\<close> are the \<open>n\<close>-th reading of \<^verbatim>\<open>time.Now().Unix()\<close> and of
  \<^verbatim>\<open>rand.Intn(100)\<close> in the leg \<open>l\<close>, \<open>cacheClock\<close> is the clock that the cache reads,
  and \<open>roundTrip w l call\<close> is the answer of the HTTP client to a call in the leg \<open>l\<close>.
  A call is \<^verbatim>\<open>client.Do\<close> of a request with a verb, a URL and an \<^verbatim>\<open>Authorization\<close> header,
  \<^verbatim>\<open>client.Get\<close> of a URL, or \<^verbatim>\<open>client.PostForm\<close> of a URL and the encoded values. An
  answer is the pair of Go: the response, \<open>None\<close> for \<^verbatim>\<open>nil\<close> and otherwise what
  \<^verbatim>\<open>ioutil.ReadAll\<close> returns for its body, and the error.
\<close>

datatype 'a result = Panics | Returns 'a

datatype jvalue =
    JNull
  | JBool bool
  | JNumber rat
  | JString string
  | JArray "jvalue list"
  | JObject "(string \<times> jvalue) list"

datatype leg = RequestTokenLeg | AccessTokenLeg | UserInfoLeg

datatype httpCall =
    ClientDo string string string
  | ClientGet string
  | ClientPostForm string string

type_synonym httpReply = "(string \<times> error) option \<times> error"

record library =
  hmacSHA1 :: "string \<Rightarrow> string \<Rightarrow> string"
  base64 :: "string \<Rightarrow> string"
  ParseQuery :: "string \<Rightarrow> (string \<times> string) list \<times> error"
  jsonDecode :: "string \<Rightarrow> (string \<times> jvalue) list \<times> error"
  newRequestOk :: "string \<Rightarrow> string \<Rightarrow> bool"
  FormatFloat :: "rat \<Rightarrow> string"
  SprintValue :: "jvalue \<Rightarrow> string"

record world =
  unixTime :: "leg \<Rightarrow> nat \<Rightarrow> int"
  randIntn :: "leg \<Rightarrow> nat \<Rightarrow> int"
  cacheClock :: int
  roundTrip :: "leg \<Rightarrow> httpCall \<Rightarrow> httpReply"

subsection \<open>The signature engine\<close>

text \<open>
  A \<^verbatim>\<open>map[string]string\<close> of parameters is an association list. \<^verbatim>\<open>toParamList\<close> appends
  the pairs of the keys that it finds, in the given order.
\<close>

fun toParamList :: "(string \<times> string) list \<Rightarrow> string list \<Rightarrow> oauthPair list" where
  "toParamList params [] = []"
| "toParamList params (k # order) =
     (case map_of params k of
        Some v \<Rightarrow> \<lparr>key = k, value = v\<rparr> # toParamList params order
      | None \<Rightarrow> toParamList params order)"

definition createBaseString :: "string \<Rightarrow> string \<Rightarrow> oauthPair list \<Rightarrow> string" where
  "createBaseString verb tourl params =
     (let paramString =
        foldl (\<lambda>paramString param.
                 if length paramString = 0 then key param @ ''='' @ QueryEscape (value param)
                 else paramString @ ''&'' @ key param @ ''='' @ QueryEscape (value param))
              [] params
      in ToUpper verb @ ''&'' @ QueryEscape tourl @ ''&'' @ QueryEscape paramString)"

definition createMethodSignature :: "library \<Rightarrow> string \<Rightarrow> string \<Rightarrow> string \<Rightarrow> string" where
  "createMethodSignature lib baseString clientSecret oauthSecret =
     (let secretKey = QueryEscape clientSecret @ ''&'';
          secretKey = (if length oauthSecret > 0 then secretKey @ QueryEscape oauthSecret
                       else secretKey)
      in base64 lib (hmacSHA1 lib secretKey baseString))"

definition createHeader :: "oauthPair list \<Rightarrow> string" where
  "createHeader params =
     (let header =
        foldl (\<lambda>header param.
                 if length header = 0
                 then key param @ ''='' @ [CHR 0x22] @ QueryEscape (value param) @ [CHR 0x22]
                 else header @ '', '' @ key param @ ''='' @ [CHR 0x22] @
                      QueryEscape (value param) @ [CHR 0x22])
              [] params
      in oauthPreamble @ '' '' @ header)"

definition generateParams ::
  "world \<Rightarrow> OAuth1ServiceProvider \<Rightarrow> leg \<Rightarrow> string \<Rightarrow> string \<Rightarrow> string \<Rightarrow> (string \<times> string) list" where
  "generateParams w provider l tokenString secretString verifier =
     (let params = [];
          params = AList.update oauthCallback (RedirectURL (config provider)) params;
          params = AList.update oauthConsumerKey (ClientID (config provider)) params;
          params = AList.update oauthNonce
                     (Sprint (unixTime w l 0) @ Sprint (randIntn w l 0 + randIntn w l 1 * 12)) params;
          params = AList.update oauthSignatureMethod ''HMAC-SHA1'' params;
          params = AList.update oauthTimestamp (Sprint (unixTime w l 1)) params;
          params = AList.update oauthVersion OAuthVersion1 params;
          params = AList.update oauthToken tokenString params;
          params = AList.update oauthSecretToken secretString params;
          params = AList.update oauthVerifier verifier params
      in params)"

subsection \<open>The two transmissions\<close>

text \<open>
  \<^verbatim>\<open>Values.Encode\<close> writes the pairs sorted by key. Both functions run
  \<^verbatim>\<open>defer resp.Body.Close()\<close> before they look at the error, which panics on the \<^verbatim>\<open>nil\<close>
  response of a failed round trip; \<^verbatim>\<open>getResponseByHeader\<close> drops the error of
  \<^verbatim>\<open>http.NewRequest\<close> and panics on its \<^verbatim>\<open>nil\<close> request. \<open>afterRoundTrip\<close> is what both
  functions do with the answer of the client. Each function returns the HTTP calls it has
  made with its result.
\<close>

definition encodeValues :: "(string \<times> string) list \<Rightarrow> string" where
  "encodeValues values =
     foldl (\<lambda>buf (k, v). (if length buf > 0 then buf @ ''&'' else buf) @
                          QueryEscape k @ ''='' @ QueryEscape v)
           [] (sort_key fst values)"

definition afterRoundTrip :: "httpReply \<Rightarrow> (string \<times> error) result" where
  "afterRoundTrip reply =
     (case reply of
        (None, err) \<Rightarrow> Panics
      | (Some body, None) \<Rightarrow> Returns body
      | (Some body, Some e) \<Rightarrow> Returns ([], Some e))"

definition getResponseByQuery ::
  "world \<Rightarrow> leg \<Rightarrow> string \<Rightarrow> string \<Rightarrow> (string \<times> string) list \<Rightarrow>
     httpCall list \<times> (string \<times> error) result" where
  "getResponseByQuery w l verb requestURL params =
     (if verb = OAuthVerbGet
      then let call = ClientGet (requestURL @ ''?'' @ encodeValues params)
           in ([call], afterRoundTrip (roundTrip w l call))
      else if verb = OAuthVerbPost
      then let call = ClientPostForm requestURL (encodeValues params)
           in ([call], afterRoundTrip (roundTrip w l call))
      else ([], Panics))"

definition getResponseByHeader ::
  "library \<Rightarrow> world \<Rightarrow> leg \<Rightarrow> string \<Rightarrow> string \<Rightarrow> string \<Rightarrow>
     httpCall list \<times> (string \<times> error) result" where
  "getResponseByHeader lib w l verb url header =
     (if \<not> newRequestOk lib verb url then ([], Panics)
      else let call = ClientDo verb url header
           in ([call], afterRoundTrip (roundTrip w l call)))"

subsection \<open>The token legs\<close>

text \<open>
  \<^verbatim>\<open>Values.Get\<close> is the first value of a key, or the empty string. In the two token legs
  the \<^verbatim>\<open>err\<close> of \<^verbatim>\<open>url.ParseQuery\<close> is a new variable of the inner \<^verbatim>\<open>if\<close>: when the
  parsing fails, the final \<^verbatim>\<open>return token{}, err\<close> returns the outer one, which is
  \<^verbatim>\<open>nil\<close> there. With a transmission type that is neither 1 nor 2 the \<^verbatim>\<open>switch\<close> makes no
  call and leaves \<^verbatim>\<open>data\<close> and \<^verbatim>\<open>err\<close> at \<^verbatim>\<open>nil\<close>. The three legs have this \<^verbatim>\<open>switch\<close>
  in common (\<open>transmit\<close>), and the two token legs what they do with the answer
  (\<open>parseToken\<close>).
\<close>

definition valuesGet :: "(string \<times> string) list \<Rightarrow> string \<Rightarrow> string" where
  "valuesGet values k = (case map_of values k of Some v \<Rightarrow> v | None \<Rightarrow> [])"

definition transmit ::
  "library \<Rightarrow> world \<Rightarrow> OAuth1ServiceProvider \<Rightarrow> leg \<Rightarrow> string \<Rightarrow> string \<Rightarrow>
     (string \<times> string) list \<Rightarrow> string list \<Rightarrow> httpCall list \<times> (string \<times> error) result" where
  "transmit lib w provider l verb url params headerParamOrder =
     (if AuthTransmissionType (config provider) = OAuth1HeaderTransmissionType
      then getResponseByHeader lib w l verb url (createHeader (toParamList params headerParamOrder))
      else if AuthTransmissionType (config provider) = OAuth1QueryParamTramssionType
      then getResponseByQuery w l verb url params
      else ([], Returns ([], None)))"

definition parseToken :: "library \<Rightarrow> string \<times> error \<Rightarrow> token \<times> error" where
  "parseToken lib r =
     (case r of
        (data, None) \<Rightarrow>
          (case ParseQuery lib data of
             (values, None) \<Rightarrow>
               (\<lparr>token = valuesGet values oauthToken, secret = valuesGet values oauthSecretToken\<rparr>,
                None)
           | (values, Some e) \<Rightarrow> (emptyToken, None))
      | (data, Some e) \<Rightarrow> (emptyToken, Some e))"

definition fetchOAuthRequestToken ::
  "library \<Rightarrow> world \<Rightarrow> OAuth1ServiceProvider \<Rightarrow> httpCall list \<times> (token \<times> error) result" where
  "fetchOAuthRequestToken lib w provider =
     (let params = generateParams w provider RequestTokenLeg [] [] [];
          baseStringParamOrder = [oauthCallback, oauthConsumerKey, oauthNonce,
            oauthSignatureMethod, oauthTimestamp, oauthVersion];
          baseString = createBaseString (RequestTokenVerb (config provider))
            (RequestTokenURL (config provider)) (toParamList params baseStringParamOrder);
          methodSignature = createMethodSignature lib baseString (ClientSecret (config provider)) [];
          params = AList.update oauthSignature methodSignature params;
          headerParamOrder = [oauthNonce, oauthSignature, oauthCallback, oauthConsumerKey,
            oauthTimestamp, oauthSignatureMethod, oauthVersion]
      in case transmit lib w provider RequestTokenLeg (RequestTokenVerb (config provider))
                (RequestTokenURL (config provider)) params headerParamOrder of
           (calls, Panics) \<Rightarrow> (calls, Panics)
         | (calls, Returns r) \<Rightarrow> (calls, Returns (parseToken lib r)))"

definition fetchOAuthAccessToken ::
  "library \<Rightarrow> world \<Rightarrow> OAuth1ServiceProvider \<Rightarrow> token \<Rightarrow> string \<Rightarrow>
     httpCall list \<times> (token \<times> error) result" where
  "fetchOAuthAccessToken lib w provider authToken verifier =
     (let params = generateParams w provider AccessTokenLeg (token authToken) (secret authToken) verifier;
          baseStringParamOrder = [oauthConsumerKey, oauthNonce, oauthSignatureMethod,
            oauthTimestamp, oauthToken, oauthVerifier, oauthVersion];
          baseString = createBaseString (RequestTokenVerb (config provider))
            (TokenURL (config provider)) (toParamList params baseStringParamOrder);
          methodSignature = createMethodSignature lib baseString (token authToken) (secret authToken);
          params = AList.update oauthSignature methodSignature params;
          headerParamOrder = [oauthVerifier, oauthNonce, oauthSignature, oauthToken,
            oauthConsumerKey, oauthTimestamp, oauthSignatureMethod, oauthVersion]
      in case transmit lib w provider AccessTokenLeg (RequestTokenVerb (config provider))
                (TokenURL (config provider)) params headerParamOrder of
           (calls, Panics) \<Rightarrow> (calls, Panics)
         | (calls, Returns r) \<Rightarrow> (calls, Returns (parseToken lib r)))"

subsection \<open>User data\<close>

text \<open>
  The decoded JSON object is an association list of values. A type assertion
  \<^verbatim>\<open>x.(string)\<close> panics on a value that is not a string, and \<^verbatim>\<open>reflect.TypeOf(x).Kind()\<close>
  panics on \<^verbatim>\<open>nil\<close>. A key that is missing reads as \<^verbatim>\<open>nil\<close> in \<^verbatim>\<open>data["id"]\<close>.
  \<^verbatim>\<open>toUserData\<close> is a sequence of steps, each of which can panic: \<open>setFromKeys\<close> is an
  \<^verbatim>\<open>if\<close> (with its \<^verbatim>\<open>else if\<close>) that stores the string of the first key found,
  \<open>setPhotoURL\<close> the \<^verbatim>\<open>if\<close> on \<^verbatim>\<open>picture\<close>, \<open>fillNames\<close> the two final \<^verbatim>\<open>if\<close>s.
\<close>

definition bindResult :: "'a result \<Rightarrow> ('a \<Rightarrow> 'b result) \<Rightarrow> 'b result" where
  "bindResult r f = (case r of Panics \<Rightarrow> Panics | Returns x \<Rightarrow> f x)"

definition assertString :: "jvalue \<Rightarrow> string result" where
  "assertString v = (case v of JString s \<Rightarrow> Returns s | _ \<Rightarrow> Panics)"

definition toStringValue :: "library \<Rightarrow> jvalue \<Rightarrow> string" where
  "toStringValue lib n =
     (case n of
        JNumber f \<Rightarrow> FormatFloat lib f
      | JString s \<Rightarrow> s
      | JNull \<Rightarrow> ''<nil>''
      | JBool b \<Rightarrow> (if b then ''true'' else ''false'')
      | _ \<Rightarrow> SprintValue lib n)"

definition setFromKeys ::
  "(string \<times> jvalue) list \<Rightarrow> string list \<Rightarrow> (string \<Rightarrow> UserData \<Rightarrow> UserData) \<Rightarrow>
     UserData \<Rightarrow> UserData result" where
  "setFromKeys data ks upd user =
     (case List.find (\<lambda>k. map_of data k \<noteq> None) ks of
        None \<Rightarrow> Returns user
      | Some k \<Rightarrow>
          (case map_of data k of
             None \<Rightarrow> Returns user
           | Some v \<Rightarrow> bindResult (assertString v) (\<lambda>s. Returns (upd s user))))"

definition setPhotoURL :: "(string \<times> jvalue) list \<Rightarrow> UserData \<Rightarrow> UserData result" where
  "setPhotoURL data user =
     (case map_of data ''picture'' of
        Some JNull \<Rightarrow> Panics
      | Some (JObject picture) \<Rightarrow>
          (case map_of picture ''data'' of
             None \<Rightarrow> Returns user
           | Some JNull \<Rightarrow> Panics
           | Some (JObject m) \<Rightarrow>
               (case map_of m ''url'' of
                  None \<Rightarrow> Returns user
                | Some u \<Rightarrow> bindResult (assertString u) (\<lambda>s. Returns (user\<lparr>PhotoURL := s\<rparr>)))
           | Some _ \<Rightarrow> Returns user)
      | Some picture \<Rightarrow>
          bindResult (assertString picture) (\<lambda>s. Returns (user\<lparr>PhotoURL := s\<rparr>))
      | None \<Rightarrow>
          (case map_of data ''profile_image_url'' of
             None \<Rightarrow> Returns user
           | Some picture \<Rightarrow>
               bindResult (assertString picture) (\<lambda>s. Returns (user\<lparr>PhotoURL := s\<rparr>))))"

definition fillNames :: "UserData \<Rightarrow> UserData" where
  "fillNames user =
     (let user = (if length (FullName user) = 0 \<and> length (FamilyName user) > 0
                  then user\<lparr>FullName := GivenName user @ '' '' @ FamilyName user\<rparr> else user)
      in if length (ScreenName user) = 0
         then if length (FullName user) > 0 then user\<lparr>ScreenName := FullName user\<rparr>
              else if length (FamilyName user) > 0
              then user\<lparr>ScreenName := GivenName user @ '' '' @ FamilyName user\<rparr>
              else user
         else user)"

definition toUserData :: "library \<Rightarrow> (string \<times> jvalue) list \<Rightarrow> UserData result" where
  "toUserData lib data =
     (let user = zeroUserData\<lparr>UserID :=
            toStringValue lib (case map_of data ''id'' of None \<Rightarrow> JNull | Some v \<Rightarrow> v)\<rparr>
      in bindResult (setFromKeys data [''name''] (\<lambda>s u. u\<lparr>FullName := s\<rparr>) user) (\<lambda>user.
         bindResult (setFromKeys data [''screen_name''] (\<lambda>s u. u\<lparr>ScreenName := s\<rparr>) user) (\<lambda>user.
         bindResult (setFromKeys data [''given_name'', ''first_name''] (\<lambda>s u. u\<lparr>GivenName := s\<rparr>) user) (\<lambda>user.
         bindResult (setFromKeys data [''family_name'', ''last_name''] (\<lambda>s u. u\<lparr>FamilyName := s\<rparr>) user) (\<lambda>user.
         bindResult (setFromKeys data [''email''] (\<lambda>s u. u\<lparr>Email := s\<rparr>) user) (\<lambda>user.
         bindResult (setPhotoURL data user) (\<lambda>user.
         Returns (fillNames user))))))))"

subsection \<open>The flow controller\<close>

text \<open>
  The JSON decoder returns \<^verbatim>\<open>io.EOF\<close> on an empty input. \<^verbatim>\<open>fetchUserInfo\<close> stamps the
  user data that \<^verbatim>\<open>toUserData\<close> returns.
\<close>

definition decodeObject :: "library \<Rightarrow> string \<Rightarrow> (string \<times> jvalue) list \<times> error" where
  "decodeObject lib data = (if data = [] then ([], Some ''EOF'') else jsonDecode lib data)"

definition fetchUserInfo ::
  "library \<Rightarrow> world \<Rightarrow> OAuth1ServiceProvider \<Rightarrow> token \<Rightarrow> string \<Rightarrow>
     httpCall list \<times> (UserData \<times> error) result" where
  "fetchUserInfo lib w provider accessToken verifier =
     (let params = generateParams w provider UserInfoLeg (token accessToken) (secret accessToken) verifier;
          baseStringParamOrder = [oauthConsumerKey, oauthNonce, oauthSignatureMethod,
            oauthTimestamp, oauthToken, oauthVersion];
          baseString = createBaseString (UserInfoVerb (config provider))
            (UserInfoURL (config provider)) (toParamList params baseStringParamOrder);
          methodSignature = createMethodSignature lib baseString (ClientSecret (config provider))
            (secret accessToken);
          params = AList.update oauthSignature methodSignature params;
          headerParamOrder = [oauthConsumerKey, oauthNonce, oauthSignature,
            oauthSignatureMethod, oauthTimestamp, oauthToken, oauthVersion]
      in case transmit lib w provider UserInfoLeg (UserInfoVerb (config provider))
                (UserInfoURL (config provider)) params headerParamOrder of
           (calls, Panics) \<Rightarrow> (calls, Panics)
         | (calls, Returns (data, Some e)) \<Rightarrow> (calls, Returns (zeroUserData, Some e))
         | (calls, Returns (data, None)) \<Rightarrow>
             (case decodeObject lib data of
                (m, Some e) \<Rightarrow> (calls, Returns (zeroUserData, Some e))
              | (m, None) \<Rightarrow>
                  (case toUserData lib m of
                     Panics \<Rightarrow> (calls, Panics)
                   | Returns user \<Rightarrow>
                       (calls, Returns
                          (user\<lparr>OAuthProvider := ToUpper (ProviderName (config provider)),
                                OAuthVersion := OAuthVersion1,
                                OAuthToken := token accessToken,
                                OAuthTokenType := ''Access Token''\<rparr>, None)))))"

text \<open>
  \<^verbatim>\<open>tokenCtx\<close>, the cache of the package, is passed in and returned. \<^verbatim>\<open>GetRedirectURL\<close>
  drops the boolean of \<^verbatim>\<open>addToken\<close>.
\<close>

definition GetRedirectURL ::
  "library \<Rightarrow> world \<Rightarrow> OAuth1ServiceProvider \<Rightarrow> tokenCache \<Rightarrow>
     tokenCache \<times> httpCall list \<times> (string \<times> error) result" where
  "GetRedirectURL lib w provider tokenCtx =
     (case fetchOAuthRequestToken lib w provider of
        (calls, Panics) \<Rightarrow> (tokenCtx, calls, Panics)
      | (calls, Returns (tkn, None)) \<Rightarrow>
          (fst (addToken tokenCtx tkn (cacheClock w)), calls,
           Returns (AuthURL (config provider) @ ''?'' @ oauthToken @ ''='' @ token tkn, None))
      | (calls, Returns (tkn, Some e)) \<Rightarrow> (tokenCtx, calls, Returns ([], Some e)))"

text \<open>
  The request of \<^verbatim>\<open>ProcessResponse\<close> is the list of its form values; \<^verbatim>\<open>FormValue\<close> is the
  first value of a key, or the empty string.
\<close>

definition FormValue :: "(string \<times> string) list \<Rightarrow> string \<Rightarrow> string" where
  "FormValue request k = (case map_of request k of Some v \<Rightarrow> v | None \<Rightarrow> [])"

definition ProcessResponse ::
  "library \<Rightarrow> world \<Rightarrow> OAuth1ServiceProvider \<Rightarrow> tokenCache \<Rightarrow> (string \<times> string) list \<Rightarrow>
     tokenCache \<times> httpCall list \<times> (UserData \<times> error) result" where
  "ProcessResponse lib w provider tokenCtx request =
     (let user = zeroUserData;
          tokenString = FormValue request oauthToken;
          verifier = FormValue request oauthVerifier
      in if length tokenString > 0 \<and> length verifier > 0
         then (case getToken tokenCtx tokenString (cacheClock w) of
                 (tokenCtx, tkn, None) \<Rightarrow>
                   (case fetchOAuthAccessToken lib w provider tkn verifier of
                      (calls, Panics) \<Rightarrow> (tokenCtx, calls, Panics)
                    | (calls, Returns (accessToken, Some e)) \<Rightarrow>
                        (tokenCtx, calls, Returns (user, Some e))
                    | (calls, Returns (accessToken, None)) \<Rightarrow>
                        (case fetchUserInfo lib w provider accessToken verifier of
                           (calls2, r) \<Rightarrow> (tokenCtx, calls @ calls2, r)))
               | (tokenCtx, tkn, Some e) \<Rightarrow>
                   (tokenCtx, [],
                    Returns (user, Some ''Invalid request: could not validate oauth token.'')))
         else (tokenCtx, [], Returns (user, Some ''Invalid request: missing token or verifier.'')))"

section \<open>Notions for the properties\<close>

text \<open>
  The definitions above follow the source. The ones below are not in the source: they
  name what the properties are about.
\<close>

subsection \<open>Reading the cache\<close>

text \<open>
  Reading the cache: the identifier of the item at an address, the identifiers and the
  items in the order of the list (most recently used first).
\<close>

definition key_of :: "tokenCache \<Rightarrow> addr \<Rightarrow> string" where
  "key_of c p = token (tok (heap c p))"

definition keys :: "tokenCache \<Rightarrow> string list" where
  "keys c = map (key_of c) (list c)"

definition entries :: "tokenCache \<Rightarrow> tokenCacheItem list" where
  "entries c = map (heap c) (list c)"

text \<open>
  The map and the list describe the same items: the list has no address twice, the map no
  key twice, the map sends exactly the identifier of each listed item to its address, and
  every listed address has been allocated.
\<close>

definition cache_ok :: "tokenCache \<Rightarrow> bool" where
  "cache_ok c \<longleftrightarrow>
     distinct (list c) \<and> distinct (map fst (items c)) \<and>
     set (items c) = (\<lambda>p. (key_of c p, p)) ` set (list c) \<and>
     list_all (\<lambda>p. p < nextAddr c) (list c)"

text \<open>The state after one round of the loop of \<^verbatim>\<open>trimCache\<close> that removes the tail.\<close>

definition dropTail :: "tokenCache \<Rightarrow> tokenCache" where
  "dropTail c =
     c\<lparr>list := butlast (list c),
       items := AList.delete (token (tok (heap c (last (list c))))) (items c),
       remCapacity := remCapacity c + 1\<rparr>"

text \<open>
  The number of items that \<open>n\<close> rounds of the loop remove, from the items in the order of
  removal (the tail first).
\<close>

fun evictCount :: "nat \<Rightarrow> int \<Rightarrow> int \<Rightarrow> tokenCacheItem list \<Rightarrow> nat" where
  "evictCount 0 now m es = 0"
| "evictCount (Suc n) now m [] = 0"
| "evictCount (Suc n) now m (e # es) =
     (if now - timeIn e < m * 1000000000 then 1 else Suc (evictCount n now m es))"



definition afterLookup :: "tokenCache \<Rightarrow> token \<Rightarrow> int \<Rightarrow> tokenCache" where
  "afterLookup c1 t now =
     (case map_of (items c1) (token t) of
        Some item \<Rightarrow> promote (setTok c1 item t) item now
      | None \<Rightarrow> insertNew c1 t now)"

text \<open>
  A run of the cache is a sequence of \<^verbatim>\<open>addToken\<close> and \<^verbatim>\<open>getToken\<close> calls, each with its
  clock reading; \<open>puts\<close> is a run of insertions.
\<close>

datatype cacheOp = Put token int | Get string int

fun step :: "tokenCache \<Rightarrow> cacheOp \<Rightarrow> tokenCache" where
  "step c (Put t now) = fst (addToken c t now)"
| "step c (Get k now) = fst (getToken c k now)"

fun run :: "tokenCache \<Rightarrow> cacheOp list \<Rightarrow> tokenCache" where
  "run c [] = c"
| "run c (x # xs) = run (step c x) xs"

definition puts :: "(token \<times> int) list \<Rightarrow> cacheOp list" where
  "puts xs = map (\<lambda>(t, now). Put t now) xs"

text \<open>The bookkeeping of a cache built with capacity \<open>C\<close>.\<close>

definition accounted :: "int \<Rightarrow> tokenCache \<Rightarrow> bool" where
  "accounted C c \<longleftrightarrow> cache_ok c \<and> 0 \<le> remCapacity c \<and> remCapacity c + int (length (list c)) = C"

text \<open>
  The number of entries after \<open>n\<close> insertions of distinct tokens into a cache of capacity
  \<open>N\<close> that has no minimum retention: one more with each insertion until the cache is
  full, and \<open>min 50 N\<close> fewer before the insertion that finds it full.
\<close>

fun sizeAfter :: "nat \<Rightarrow> nat \<Rightarrow> nat" where
  "sizeAfter N 0 = 0"
| "sizeAfter N (Suc n) =
     (if sizeAfter N n < N then Suc (sizeAfter N n)
      else if N = 0 then 0 else Suc (N - min 50 N))"

subsection \<open>The base string of the specification, and the target of a call\<close>




subsection \<open>Example inputs\<close>

text \<open>
  Concrete inputs: tokens as the tests build them (the secret equal to the identifier),
  the five tokens of \<^verbatim>\<open>TestMinAge\<close> inserted at the same instant, two small caches, and a
  provider with a library and a world in which every leg is answered.
\<close>

definition tk :: "string \<Rightarrow> token" where
  "tk s = \<lparr>token = s, secret = s\<rparr>"

definition burst5 :: "(token \<times> int) list" where
  "burst5 = [(tk ''0'', 0), (tk ''1'', 0), (tk ''2'', 0), (tk ''3'', 0), (tk ''4'', 0)]"

definition fullAB :: tokenCache where
  "fullAB = run (newTokenCache 2 1000) (puts [(tk ''a'', 0), (tk ''b'', 0)])"

definition halfAB :: tokenCache where
  "halfAB = run (newTokenCache 3 1000) (puts [(tk ''a'', 0), (tk ''b'', 0)])"


definition demoLib :: library where
  "demoLib = \<lparr>hmacSHA1 = (\<lambda>k m. ''mac''), base64 = (\<lambda>s. ''c2ln''),
     ParseQuery = (\<lambda>s. if s = ''oauth_token=AT&oauth_token_secret=AS''
                       then ([(''oauth_token'', ''AT''), (''oauth_token_secret'', ''AS'')], None)
                       else ([], Some ''invalid query'')),
     jsonDecode = (\<lambda>s. ([(''id'', JString ''42''), (''name'', JString ''Ann Lee'')], None)),
     newRequestOk = (\<lambda>verb url. True),
     FormatFloat = (\<lambda>f. ''0''), SprintValue = (\<lambda>v. ''?'')\<rparr>"

definition demoWorld :: world where
  "demoWorld = \<lparr>unixTime = (\<lambda>l n. 1700000000), randIntn = (\<lambda>l n. 7), cacheClock = 5,
     roundTrip = (\<lambda>l c. case l of
         UserInfoLeg \<Rightarrow> (Some (''user-info-json'', None), None)
       | _ \<Rightarrow> (Some (''oauth_token=AT&oauth_token_secret=AS'', None), None))\<rparr>"

definition silentWorld :: world where
  "silentWorld = demoWorld\<lparr>roundTrip := (\<lambda>l c. case l of
         UserInfoLeg \<Rightarrow> (Some ([], None), None)
       | _ \<Rightarrow> (Some (''oauth_token=AT&oauth_token_secret=AS'', None), None))\<rparr>"

definition demoProvider :: OAuth1ServiceProvider where
  "demoProvider = NewOAuth1ServiceProvider
     \<lparr>ProviderName = ''twitter'', ClientID = ''id'', ClientSecret = ''cs'',
      AuthURL = ''https://p/authorize'', TokenURL = ''https://p/access'',
      UserInfoVerb = [], UserInfoURL = ''https://p/me'',
      RequestTokenVerb = [], RequestTokenURL = ''https://p/request'',
      AuthTransmissionType = 0, RedirectURL = ''https://me/cb''\<rparr>"

definition demoCache :: tokenCache where
  "demoCache = fst (addToken (newTokenCache 1000 300) \<lparr>token = ''RT'', secret = ''RS''\<rparr> 3)"

section \<open>The map and the list of the cache agree\<close>

text \<open>
  A new cache has \<open>cache_ok\<close>, and every function of the cache keeps it: so has every
  cache that a run reaches. Under it the map has as many keys as the list has items, no
  identifier is listed twice, and a lookup finds the listed item of that identifier.
\<close>

lemma cache_ok_new: "cache_ok (newTokenCache C m)"
  by (simp add: cache_ok_def newTokenCache_def)

lemma cache_ok_inj: assumes "cache_ok c" shows "inj_on (key_of c) (set (list c))"
proof (rule inj_onI)
  fix p q assume p: "p \<in> set (list c)" and q: "q \<in> set (list c)" and e: "key_of c p = key_of c q"
  from assms p have "(key_of c p, p) \<in> set (items c)" by (auto simp: cache_ok_def)
  moreover from assms q e have "(key_of c p, q) \<in> set (items c)" by (auto simp: cache_ok_def)
  moreover from assms have "distinct (map fst (items c))" by (simp add: cache_ok_def)
  ultimately show "p = q" by (meson eq_key_imp_eq_value)
qed

lemma cache_ok_distinct_keys: "cache_ok c \<Longrightarrow> distinct (keys c)"
  using cache_ok_inj[of c] by (simp add: keys_def distinct_map) (simp add: cache_ok_def)

lemma cache_ok_length: assumes "cache_ok c" shows "length (items c) = length (list c)"
proof -
  have d: "distinct (items c)" using assms by (auto simp: cache_ok_def distinct_map)
  have "inj_on (\<lambda>p. (key_of c p, p)) (set (list c))" by (rule inj_onI) simp
  then have "card (set (items c)) = card (set (list c))"
    using assms by (simp add: cache_ok_def card_image)
  then show ?thesis using d assms by (simp add: distinct_card cache_ok_def)
qed

lemma cache_ok_lookup:
  assumes "cache_ok c"
  shows "map_of (items c) k = Some p \<longleftrightarrow> p \<in> set (list c) \<and> key_of c p = k"
  using assms by (auto simp: cache_ok_def)

lemma cache_ok_keys: "cache_ok c \<Longrightarrow> set (keys c) = fst ` set (items c)"
  by (auto simp: cache_ok_def keys_def image_image)

lemma cache_ok_lookup_None:
  assumes "cache_ok c"
  shows "map_of (items c) k = None \<longleftrightarrow> k \<notin> set (keys c)"
  using cache_ok_keys[OF assms] by (simp add: map_of_eq_None_iff)

lemma key_of_dropTail [simp]: "key_of (dropTail c) = key_of c"
  by (rule ext) (simp add: key_of_def dropTail_def)

lemma cache_ok_dropTail:
  assumes ok: "cache_ok c" and ne: "list c \<noteq> []"
  shows "cache_ok (dropTail c)"
proof -
  let ?t = "last (list c)"
  have d: "distinct (list c)" using ok by (simp add: cache_ok_def)
  have tl: "?t \<in> set (list c)" using ne by simp
  have sb: "set (butlast (list c)) = set (list c) - {?t}"
  proof -
    obtain ys y where ys: "list c = ys @ [y]" using ne by (metis append_butlast_last_id)
    show ?thesis using d unfolding ys by auto
  qed
  have inj: "inj_on (key_of c) (set (list c))" by (rule cache_ok_inj[OF ok])
  have "set (AList.delete (key_of c ?t) (items c)) = (\<lambda>p. (key_of c p, p)) ` (set (list c) - {?t})"
  proof -
    have "set (AList.delete (key_of c ?t) (items c)) = {x \<in> set (items c). fst x \<noteq> key_of c ?t}"
      by (auto simp: AList.delete_eq)
    also have "\<dots> = (\<lambda>p. (key_of c p, p)) ` {p \<in> set (list c). key_of c p \<noteq> key_of c ?t}"
      using ok by (auto simp: cache_ok_def)
    also have "{p \<in> set (list c). key_of c p \<noteq> key_of c ?t} = set (list c) - {?t}"
      using inj tl by (auto dest: inj_onD)
    finally show ?thesis .
  qed
  then show ?thesis
    using ok d sb
    by (auto simp: cache_ok_def dropTail_def key_of_def distinct_butlast AList.distinct_delete
        list_all_iff dest: in_set_butlastD)
qed

lemma trimLoop_Suc:
  "trimLoop (Suc n) c now s =
     (if list c = [] then (c, s)
      else if now - timeIn (heap c (last (list c))) < minTimeInCache c * 1000000000
           then (dropTail c, True)
           else trimLoop n (dropTail c) now True)"
  by (simp add: dropTail_def Let_def)

lemma dropTail_fields [simp]:
  "heap (dropTail c) = heap c" "nextAddr (dropTail c) = nextAddr c"
  "minTimeInCache (dropTail c) = minTimeInCache c" "list (dropTail c) = butlast (list c)"
  "remCapacity (dropTail c) = remCapacity c + 1"
  by (simp_all add: dropTail_def)

lemma trimLoop_frame:
  "heap (fst (trimLoop n c now s)) = heap c \<and> nextAddr (fst (trimLoop n c now s)) = nextAddr c \<and>
   minTimeInCache (fst (trimLoop n c now s)) = minTimeInCache c"
  by (induction n arbitrary: c s) (simp_all add: trimLoop_Suc del: trimLoop.simps(2))

lemma cache_ok_trimLoop: "cache_ok c \<Longrightarrow> cache_ok (fst (trimLoop n c now s))"
  by (induction n arbitrary: c s) (simp_all add: trimLoop_Suc cache_ok_dropTail del: trimLoop.simps(2))

lemma cache_ok_promote:
  assumes "cache_ok c"
  shows "cache_ok (promote c p now)"
proof -
  have k: "key_of (promote c p now) = key_of c"
    by (rule ext) (simp add: key_of_def promote_def)
  show ?thesis
    using assms unfolding cache_ok_def k
    by (auto simp: promote_def list_all_iff distinct_remove1)
qed

lemma cache_ok_setTok:
  assumes "cache_ok c" and "token t = key_of c p"
  shows "cache_ok (setTok c p t)"
proof -
  have k: "key_of (setTok c p t) = key_of c"
    using assms(2) by (auto simp: key_of_def setTok_def)
  show ?thesis
    using assms(1) unfolding cache_ok_def k by (simp add: setTok_def)
qed

lemma update_fresh: "k \<notin> fst ` set al \<Longrightarrow> AList.update k v al = al @ [(k, v)]"
  by (induction al) auto

lemma insertNew_fields:
  "heap (insertNew c t now) = (heap c)(nextAddr c := \<lparr>tok = t, timeIn = now\<rparr>)"
  "nextAddr (insertNew c t now) = Suc (nextAddr c)"
  "list (insertNew c t now) = nextAddr c # list c"
  "items (insertNew c t now) = AList.update (token t) (nextAddr c) (items c)"
  "remCapacity (insertNew c t now) = remCapacity c - 1"
  "minTimeInCache (insertNew c t now) = minTimeInCache c"
  by (simp_all add: insertNew_def Let_def)

lemma cache_ok_insertNew:
  assumes ok: "cache_ok c" and new: "token t \<notin> set (keys c)"
  shows "cache_ok (insertNew c t now)"
proof -
  let ?p = "nextAddr c"
  let ?c = "insertNew c t now"
  have fresh: "?p \<notin> set (list c)" using ok by (auto simp: cache_ok_def list_all_iff)
  have k: "\<And>q. q \<in> set (list c) \<Longrightarrow> key_of ?c q = key_of c q"
    using fresh by (auto simp: key_of_def insertNew_fields)
  have kp: "key_of ?c ?p = token t"
    by (simp add: key_of_def insertNew_fields)
  have nk: "token t \<notin> fst ` set (items c)" using new cache_ok_keys[OF ok] by simp
  have it: "items ?c = items c @ [(token t, ?p)]"
    using nk by (simp add: insertNew_fields update_fresh)
  have li: "list ?c = ?p # list c" by (simp add: insertNew_fields)
  have na: "nextAddr ?c = Suc ?p" by (simp add: insertNew_fields)
  have "set (items ?c) = (\<lambda>p. (key_of ?c p, p)) ` set (list ?c)"
    using ok k kp unfolding it li by (auto simp: cache_ok_def)
  moreover have "distinct (map fst (items ?c))"
    using ok nk unfolding it by (simp add: cache_ok_def)
  moreover have "distinct (list ?c)" using ok fresh unfolding li by (simp add: cache_ok_def)
  moreover have "list_all (\<lambda>p. p < nextAddr ?c) (list ?c)"
    using ok unfolding li na by (auto simp: cache_ok_def list_all_iff)
  ultimately show ?thesis by (simp add: cache_ok_def)
qed

lemma cache_ok_addToken:
  assumes "cache_ok c"
  shows "cache_ok (fst (addToken c t now))"
proof -
  obtain c1 ok where c1: "(if remCapacity c \<le> 0 then trimCache c now else (c, True)) = (c1, ok)"
    by (cases "(if remCapacity c \<le> 0 then trimCache c now else (c, True))") auto
  have ok1: "cache_ok c1"
    using c1 assms cache_ok_trimLoop[of c 50 now False]
    by (auto simp: trimCache_def split: if_splits)
  show ?thesis
  proof (cases "map_of (items c1) (token t)")
    case None
    then have "token t \<notin> set (keys c1)" using cache_ok_lookup_None[OF ok1] by simp
    then show ?thesis
      using c1 None ok1 by (simp add: addToken_def cache_ok_insertNew)
  next
    case (Some p)
    then have "token t = key_of c1 p" using cache_ok_lookup[OF ok1] by simp
    then show ?thesis
      using c1 Some ok1 by (simp add: addToken_def cache_ok_promote cache_ok_setTok)
  qed
qed

lemma cache_ok_getToken: "cache_ok c \<Longrightarrow> cache_ok (fst (getToken c k now))"
  by (simp add: getToken_def cache_ok_promote Let_def split: option.splits)

lemma cache_ok_run: "cache_ok c \<Longrightarrow> cache_ok (run c ops)"
proof (induction ops arbitrary: c)
  case Nil
  then show ?case by simp
next
  case (Cons x xs)
  then show ?case by (cases x) (simp_all add: cache_ok_addToken cache_ok_getToken)
qed

section \<open>What one eviction removes\<close>

text \<open>
  \<^verbatim>\<open>trimCache\<close> cuts \<open>evictCount\<close> items off the end of the list, gives as many units
  back to the remaining capacity, touches no item, and succeeds unless the list is empty.
  It removes one item when the tail is young, and \<open>min 50\<close> of the length when no item
  is young.
\<close>

lemma trimLoop_list:
  "list (fst (trimLoop n c now s)) =
     take (length (list c) - evictCount n now (minTimeInCache c) (rev (entries c))) (list c)"
proof (induction n arbitrary: c s)
  case 0
  show ?case by simp
next
  case (Suc n)
  show ?case
  proof (cases "list c = []")
    case True
    then show ?thesis by (simp add: entries_def)
  next
    case False
    then obtain xs t where xs: "list c = xs @ [t]" by (metis append_butlast_last_id)
    have e: "entries (dropTail c) = map (heap c) xs" by (simp add: entries_def xs)
    show ?thesis
      using Suc.IH[of "dropTail c" True]
      by (simp add: trimLoop_Suc xs entries_def e del: trimLoop.simps(2))
  qed
qed

lemma trimLoop_remCapacity:
  "remCapacity (fst (trimLoop n c now s)) =
     remCapacity c + int (evictCount n now (minTimeInCache c) (rev (entries c)))"
proof (induction n arbitrary: c s)
  case 0
  show ?case by simp
next
  case (Suc n)
  show ?case
  proof (cases "list c = []")
    case True
    then show ?thesis by (simp add: entries_def)
  next
    case False
    then obtain xs t where xs: "list c = xs @ [t]" by (metis append_butlast_last_id)
    have e: "entries (dropTail c) = map (heap c) xs" by (simp add: entries_def xs)
    show ?thesis
      using Suc.IH[of "dropTail c" True]
      by (simp add: trimLoop_Suc xs entries_def e del: trimLoop.simps(2))
  qed
qed

lemma trimLoop_success:
  "snd (trimLoop n c now s) \<longleftrightarrow> s \<or> 0 < evictCount n now (minTimeInCache c) (rev (entries c))"
proof (induction n arbitrary: c s)
  case 0
  show ?case by simp
next
  case (Suc n)
  show ?case
  proof (cases "list c = []")
    case True
    then show ?thesis by (simp add: entries_def)
  next
    case False
    then obtain xs t where xs: "list c = xs @ [t]" by (metis append_butlast_last_id)
    show ?thesis
      using Suc.IH[of "dropTail c" True]
      by (simp add: trimLoop_Suc xs entries_def del: trimLoop.simps(2))
  qed
qed

lemma evictCount_le: "evictCount n now m es \<le> min n (length es)"
  by (induction n now m es rule: evictCount.induct) auto

lemma evictCount_pos: "0 < evictCount n now m es \<longleftrightarrow> 0 < n \<and> es \<noteq> []"
  by (induction n now m es rule: evictCount.induct) auto


lemma evictCount_old:
  "list_all (\<lambda>e. \<not> now - timeIn e < m * 1000000000) es \<Longrightarrow> evictCount n now m es = min n (length es)"
  by (induction n now m es rule: evictCount.induct) auto


lemma trimCache_keys_subset:
  "set (keys (fst (trimLoop n c now s))) \<subseteq> set (keys c)"
proof -
  have "key_of (fst (trimLoop n c now s)) = key_of c"
    by (rule ext) (simp add: key_of_def trimLoop_frame)
  then show ?thesis
    by (auto simp: keys_def trimLoop_list dest: in_set_takeD)
qed

lemma trimCache_entries:
  "entries (fst (trimCache c now)) =
     take (length (entries c) - evictCount 50 now (minTimeInCache c) (rev (entries c))) (entries c)"
  by (simp add: entries_def trimCache_def trimLoop_list trimLoop_frame take_map)

lemma trimCache_empty: "list c = [] \<Longrightarrow> trimCache c now = (c, False)"
  by (simp add: trimCache_def numeral_eq_Suc)

lemma trimCache_success: "snd (trimCache c now) \<longleftrightarrow> list c \<noteq> []"
  by (simp add: trimCache_def trimLoop_success evictCount_pos entries_def)


lemma trimCache_old:
  assumes m: "minTimeInCache c = 0" and o: "\<forall>e\<in>set (entries c). timeIn e \<le> now"
  shows "entries (fst (trimCache c now)) = take (length (entries c) - min 50 (length (entries c))) (entries c)"
proof -
  have "list_all (\<lambda>e. \<not> now - timeIn e < minTimeInCache c * 1000000000) (rev (entries c))"
    using m o by (auto simp: list_all_iff)
  then have "evictCount 50 now (minTimeInCache c) (rev (entries c)) = min 50 (length (entries c))"
    using evictCount_old[of now "minTimeInCache c" "rev (entries c)" 50] by simp
  then show ?thesis by (simp add: trimCache_entries)
qed

lemma trimCache_drops_tail:
  assumes ok: "cache_ok c" and ne: "list c \<noteq> []"
  shows "last (list c) \<notin> set (list (fst (trimCache c now)))"
proof -
  let ?k = "evictCount 50 now (minTimeInCache c) (rev (entries c))"
  have kp: "0 < ?k" using ne by (simp add: evictCount_pos entries_def)
  obtain xs x where xs: "list c = xs @ [x]" using ne by (metis append_butlast_last_id)
  have d: "distinct (list c)" using ok by (simp add: cache_ok_def)
  have "list (fst (trimCache c now)) = take (length (list c) - ?k) (list c)"
    by (simp add: trimCache_def trimLoop_list)
  then have "set (list (fst (trimCache c now))) \<subseteq> set xs"
    using kp unfolding xs by (auto dest: in_set_takeD)
  then show ?thesis using d unfolding xs by auto
qed

section \<open>The capacity of the cache\<close>

text \<open>
  Along a run from a new cache of capacity \<open>C\<close>, which is not negative, the remaining
  capacity is not negative and adds up to \<open>C\<close> with the number of entries.
\<close>

lemma promote_length: "length (list (promote c p now)) = length (list c)"
  by (auto simp: promote_def length_remove1 dest: length_pos_if_in_set)

lemma promote_fields [simp]:
  "remCapacity (promote c p now) = remCapacity c" "items (promote c p now) = items c"
  "nextAddr (promote c p now) = nextAddr c" "minTimeInCache (promote c p now) = minTimeInCache c"
  by (simp_all add: promote_def)

lemma setTok_fields [simp]:
  "remCapacity (setTok c p t) = remCapacity c" "items (setTok c p t) = items c"
  "nextAddr (setTok c p t) = nextAddr c" "minTimeInCache (setTok c p t) = minTimeInCache c"
  "list (setTok c p t) = list c"
  by (simp_all add: setTok_def)

lemma trimCache_accounted:
  assumes w: "cache_ok c" and z: "remCapacity c = 0" and ne: "list c \<noteq> []"
  shows "snd (trimCache c now)" and "cache_ok (fst (trimCache c now))"
    and "0 < remCapacity (fst (trimCache c now))"
    and "remCapacity (fst (trimCache c now)) + int (length (list (fst (trimCache c now))))
           = int (length (list c))"
proof -
  let ?k = "evictCount 50 now (minTimeInCache c) (rev (entries c))"
  have kp: "0 < ?k" using ne by (simp add: evictCount_pos entries_def)
  have kl: "?k \<le> length (list c)" using evictCount_le[of 50 now "minTimeInCache c" "rev (entries c)"]
    by (simp add: entries_def)
  show "snd (trimCache c now)" using kp by (simp add: trimCache_def trimLoop_success)
  show "cache_ok (fst (trimCache c now))" using w by (simp add: trimCache_def cache_ok_trimLoop)
  show "0 < remCapacity (fst (trimCache c now))"
    using kp z by (simp add: trimCache_def trimLoop_remCapacity)
  show "remCapacity (fst (trimCache c now)) + int (length (list (fst (trimCache c now))))
           = int (length (list c))"
    using kl z by (simp add: trimCache_def trimLoop_remCapacity trimLoop_list)
qed

lemma afterLookup_accounted:
  assumes ok: "cache_ok c1" and pos: "0 < remCapacity c1"
    and sum: "remCapacity c1 + int (length (list c1)) = C"
  shows "accounted C (case map_of (items c1) (token t) of
           Some item \<Rightarrow> promote (setTok c1 item t) item now
         | None \<Rightarrow> insertNew c1 t now)"
proof (cases "map_of (items c1) (token t)")
  case None
  then have "token t \<notin> set (keys c1)" using cache_ok_lookup_None[OF ok] by simp
  then show ?thesis
    using None ok pos sum by (simp add: accounted_def cache_ok_insertNew insertNew_fields)
next
  case (Some p)
  then have "token t = key_of c1 p" using cache_ok_lookup[OF ok] by simp
  then show ?thesis
    using Some ok pos sum
    by (simp add: accounted_def cache_ok_promote cache_ok_setTok promote_length)
qed

lemma addToken_accounted:
  assumes "accounted C c"
  shows "accounted C (fst (addToken c t now))"
proof (cases "0 < remCapacity c")
  case True
  then show ?thesis
    using assms afterLookup_accounted[of c C t now]
    by (simp add: addToken_def accounted_def split: option.splits)
next
  case False
  then have z: "remCapacity c = 0" using assms by (simp add: accounted_def)
  show ?thesis
  proof (cases "list c = []")
    case True
    then show ?thesis using assms z by (simp add: addToken_def trimCache_empty)
  next
    case False
    have ok: "cache_ok c" using assms by (simp add: accounted_def)
    have C: "int (length (list c)) = C" using assms z by (simp add: accounted_def)
    note t = trimCache_accounted[OF ok z False, of now]
    obtain c1 b where c1: "trimCache c now = (c1, b)" by (cases "trimCache c now")
    then have "accounted C (case map_of (items c1) (token t) of
           Some item \<Rightarrow> promote (setTok c1 item t) item now
         | None \<Rightarrow> insertNew c1 t now)"
      using t C by (intro afterLookup_accounted) simp_all
    then show ?thesis
      using c1 t(1) z by (simp add: addToken_def split: option.splits)
  qed
qed





section \<open>Bursts of insertions\<close>

text \<open>
  The insertion of a token whose identifier is not in the cache, and runs of such
  insertions.
\<close>

lemma keys_entries: "keys c = map (\<lambda>e. token (tok e)) (entries c)"
  by (simp add: keys_def entries_def key_of_def)

lemma entries_insertNew:
  assumes "cache_ok c"
  shows "entries (insertNew c t now) = \<lparr>tok = t, timeIn = now\<rparr> # entries c"
proof -
  have "nextAddr c \<notin> set (list c)" using assms by (auto simp: cache_ok_def list_all_iff)
  then show ?thesis by (auto simp: entries_def insertNew_fields)
qed

lemma addToken_new:
  assumes ok: "cache_ok c" and new: "token t \<notin> set (keys c)"
  shows "addToken c t now =
     (if remCapacity c \<le> 0
      then if list c = [] then (c, False) else (insertNew (fst (trimCache c now)) t now, True)
      else (insertNew c t now, True))"
proof (cases "remCapacity c \<le> 0")
  case False
  then show ?thesis using new cache_ok_lookup_None[OF ok, of "token t"] by (simp add: addToken_def)
next
  case True
  show ?thesis
  proof (cases "list c = []")
    case True
    then show ?thesis using \<open>remCapacity c \<le> 0\<close> by (simp add: addToken_def trimCache_empty)
  next
    case False
    obtain c1 b where c1: "trimCache c now = (c1, b)" by (cases "trimCache c now")
    have b: "b" using c1 False trimLoop_success[of 50 c now False]
      by (simp add: trimCache_def evictCount_pos entries_def)
    have ok1: "cache_ok c1" using c1 cache_ok_trimLoop[OF ok, of 50 now False] by (simp add: trimCache_def)
    have "token t \<notin> set (keys c1)"
      using c1 new trimCache_keys_subset[of 50 c now False] by (auto simp: trimCache_def)
    then have "map_of (items c1) (token t) = None" using cache_ok_lookup_None[OF ok1] by simp
    then show ?thesis using True False c1 b by (simp add: addToken_def)
  qed
qed

lemma run_append: "run c (xs @ ys) = run (run c xs) ys"
  by (induction xs arbitrary: c) simp_all

lemma run_puts_snoc: "run c (puts (xs @ [(t, now)])) = fst (addToken (run c (puts xs)) t now)"
  by (simp add: puts_def run_append)

lemma minTime_addToken: "minTimeInCache (fst (addToken c t now)) = minTimeInCache c"
  using trimLoop_frame[of 50 c now False]
  by (auto simp: addToken_def trimCache_def insertNew_fields split: prod.splits option.splits if_splits)



subsection \<open>A burst shorter than the minimum retention\<close>






subsection \<open>No minimum retention\<close>

lemma sizeAfter_le: "sizeAfter N n \<le> n \<and> sizeAfter N n \<le> N"
  by (induction n) auto

lemma sizeAfter_small: "n \<le> N \<Longrightarrow> sizeAfter N n = n"
  by (induction n) auto

lemma sizeAfter_zero: "sizeAfter 0 n = 0"
  by (induction n) auto

lemma sizeAfter_closed:
  assumes "1 \<le> N"
  shows "sizeAfter N (N + Suc j) = N - min 50 N + 1 + j mod min 50 N"
proof (induction j)
  case 0
  show ?case using assms by (simp add: sizeAfter_small)
next
  case (Suc j)
  let ?b = "min 50 N"
  have b: "0 < ?b" "?b \<le> N" using assms by simp_all
  have m: "j mod ?b < ?b" using b(1) by (rule mod_less_divisor)
  show ?case
  proof (cases "Suc (j mod ?b) = ?b")
    case True
    then have "sizeAfter N (N + Suc j) = N" using Suc b by linarith
    moreover have "Suc j mod ?b = 0" using True by (simp add: mod_Suc)
    ultimately show ?thesis using assms by simp
  next
    case False
    then have "sizeAfter N (N + Suc j) < N" using Suc b m by linarith
    moreover have "Suc j mod ?b = Suc (j mod ?b)" using False by (simp add: mod_Suc)
    ultimately show ?thesis using Suc by simp
  qed
qed

lemma addToken_zero_step:
  assumes w: "accounted (int N) c" and new: "token t \<notin> set (keys c)"
    and m: "minTimeInCache c = 0" and o: "\<forall>e\<in>set (entries c). timeIn e \<le> now"
    and k: "keys c = take (sizeAfter N n) L" and l: "n \<le> length L"
  shows "keys (fst (addToken c t now)) = take (sizeAfter N (Suc n)) (token t # L)"
    and "timeIn ` set (entries (fst (addToken c t now))) \<subseteq> insert now (timeIn ` set (entries c))"
proof -
  have ok: "cache_ok c" and rc: "0 \<le> remCapacity c"
    and sum: "remCapacity c + int (length (list c)) = int N"
    using w by (simp_all add: accounted_def)
  have len: "length (keys c) = length (list c)" "length (entries c) = length (list c)"
    by (simp_all add: keys_def entries_def)
  have sz: "length (keys c) = sizeAfter N n"
    using k l sizeAfter_le[of N n] by simp
  note a = addToken_new[OF ok new, of now]
  consider (free) "0 < remCapacity c" | (none) "remCapacity c = 0" "list c = []"
    | (full) "remCapacity c = 0" "list c \<noteq> []" using rc by linarith
  then have "keys (fst (addToken c t now)) = take (sizeAfter N (Suc n)) (token t # L) \<and>
     timeIn ` set (entries (fst (addToken c t now))) \<subseteq> insert now (timeIn ` set (entries c))"
  proof cases
    case free
    have "sizeAfter N n < N" using free sum len sz by linarith
    then show ?thesis using free a k by (auto simp: keys_entries entries_insertNew[OF ok])
  next
    case none
    then have "N = 0" using sum by simp
    then show ?thesis using none a by (auto simp: keys_def sizeAfter_zero)
  next
    case full
    let ?c1 = "fst (trimCache c now)"
    have ok1: "cache_ok ?c1" using ok by (simp add: trimCache_def cache_ok_trimLoop)
    have N: "sizeAfter N n = N" "0 < N" "length (entries c) = N" using full sum len sz by auto
    have e1: "entries ?c1 = take (N - min 50 N) (entries c)"
      using trimCache_old[OF m o] N by simp
    have "keys ?c1 = take (N - min 50 N) L"
      unfolding keys_entries e1 using k N by (simp add: keys_entries take_map[symmetric] min_def)
    then show ?thesis
      using full a e1 N by (auto simp: keys_entries entries_insertNew[OF ok1] dest: in_set_takeD)
  qed
  then show "keys (fst (addToken c t now)) = take (sizeAfter N (Suc n)) (token t # L)"
    and "timeIn ` set (entries (fst (addToken c t now))) \<subseteq> insert now (timeIn ` set (entries c))"
    by simp_all
qed

lemma batch_invariant:
  assumes d: "distinct (map (\<lambda>x. token (fst x)) xs)" and s: "sorted (map snd xs)"
  shows "accounted (int N) (run (newTokenCache (int N) 0) (puts xs)) \<and>
         minTimeInCache (run (newTokenCache (int N) 0) (puts xs)) = 0 \<and>
         keys (run (newTokenCache (int N) 0) (puts xs)) =
           take (sizeAfter N (length xs)) (rev (map (\<lambda>x. token (fst x)) xs)) \<and>
         timeIn ` set (entries (run (newTokenCache (int N) 0) (puts xs))) \<subseteq> snd ` set xs"
  using d s
proof (induction xs rule: rev_induct)
  case Nil
  show ?case by (simp add: puts_def accounted_def cache_ok_new keys_def entries_def)
      (simp add: newTokenCache_def)
next
  case (snoc x xs)
  obtain t now where x: "x = (t, now)" by (cases x)
  let ?c = "run (newTokenCache (int N) 0) (puts xs)"
  have s': "sorted (map snd xs)" and le: "\<forall>z\<in>set xs. snd z \<le> now"
    using snoc.prems(2) x by (auto simp: sorted_append)
  have ih: "accounted (int N) ?c" "minTimeInCache ?c = 0"
    "keys ?c = take (sizeAfter N (length xs)) (rev (map (\<lambda>x. token (fst x)) xs))"
    "timeIn ` set (entries ?c) \<subseteq> snd ` set xs"
    using snoc s' by simp_all
  have new: "token t \<notin> set (keys ?c)"
    using snoc.prems(1) ih(3) x by (auto dest: in_set_takeD)
  have o: "\<forall>e\<in>set (entries ?c). timeIn e \<le> now"
  proof
    fix e assume "e \<in> set (entries ?c)"
    then obtain z where "z \<in> set xs" "snd z = timeIn e" using ih(4) by force
    then show "timeIn e \<le> now" using le by auto
  qed
  have l: "length xs \<le> length (rev (map (\<lambda>x. token (fst x)) xs))" by simp
  note st = addToken_zero_step[OF ih(1) new ih(2) o ih(3) l]
  show ?case
    using st ih(1,2,4) unfolding x run_puts_snoc
    by (auto simp: addToken_accounted minTime_addToken simp del: sizeAfter.simps)
qed

text \<open>
  C3, as the code has it. With a minimum retention of 0 and a clock that does not go
  back, an insertion into the full cache of capacity \<open>N\<close> first evicts \<open>min 50 N\<close>
  items. After \<open>N + k\<close> distinct tokens (\<open>1 \<le> k\<close>, \<open>1 \<le> N\<close>) the cache holds
  \<open>N - min 50 N + 1 + (k - 1) mod min 50 N\<close> entries, the most recently inserted
  tokens; a cache of capacity 0 stays empty.
\<close>

theorem batch_eviction_keeps_newest:
  assumes "distinct (map (\<lambda>x. token (fst x)) xs)" and "sorted (map snd xs)"
    and "length xs = N + k" and "1 \<le> k"
  shows "keys (run (newTokenCache (int N) 0) (puts xs)) =
           take (if N = 0 then 0 else N - min 50 N + 1 + (k - 1) mod min 50 N)
             (rev (map (\<lambda>x. token (fst x)) xs)) \<and>
         size_cache (run (newTokenCache (int N) 0) (puts xs)) =
           int (if N = 0 then 0 else N - min 50 N + 1 + (k - 1) mod min 50 N)"
proof -
  let ?c = "run (newTokenCache (int N) 0) (puts xs)"
  let ?s = "if N = 0 then 0 else N - min 50 N + 1 + (k - 1) mod min 50 N"
  note inv = batch_invariant[OF assms(1,2), of N]
  obtain j where j: "k = Suc j" using assms(4) by (cases k) simp_all
  have sa: "sizeAfter N (length xs) = ?s"
    using sizeAfter_closed[of N j] sizeAfter_zero[of "length xs"] assms(3) j by (cases "N = 0") simp_all
  have k: "keys ?c = take ?s (rev (map (\<lambda>x. token (fst x)) xs))"
    using inv sa by simp
  have le: "?s \<le> length xs" using sizeAfter_le[of N "length xs"] sa by simp
  have "cache_ok ?c" using inv by (simp add: accounted_def)
  then have "size_cache ?c = int (length (keys ?c))"
    by (simp add: size_cache_def cache_ok_length keys_def)
  also have "\<dots> = int ?s" unfolding k using le by simp
  finally show ?thesis using k by simp
qed

theorem batch_eviction_keeps_newest_witness:
  "size_cache (run (newTokenCache 4 0) (puts burst5)) = 1 \<and>
   keys (run (newTokenCache 4 0) (puts burst5)) = [''4'']"
proof -
  have d: "distinct (map (\<lambda>x. token (fst x)) burst5)" by (simp add: burst5_def tk_def)
  have s: "sorted (map snd burst5)" by (simp add: burst5_def)
  have l: "length burst5 = 4 + 1" by (simp add: burst5_def)
  from batch_eviction_keeps_newest[OF d s l] show ?thesis by (simp add: burst5_def tk_def)
qed

text \<open>
  C3 as stated fails: capacity 4, minimum retention 0, 4 + 1 distinct tokens leave 1
  entry, not 4 (\<^verbatim>\<open>shortCache\<close> of \<^verbatim>\<open>TestMinAge\<close>).
\<close>

theorem zero_retention_leaves_one:
  "size_cache (run (newTokenCache 4 0) (puts burst5)) = 1 \<and>
   size_cache (run (newTokenCache 4 0) (puts burst5)) \<noteq> 4"
  by code_simp

section \<open>The minimum retention and the refusal of an insertion\<close>






section \<open>Insertion and lookup\<close>

lemma remove1_filter_distinct: "distinct xs \<Longrightarrow> remove1 x xs = filter (\<lambda>y. y \<noteq> x) xs"
  by (simp add: distinct_remove1_removeAll removeAll_filter_not_eq) (metis)

lemma entries_promote:
  assumes ok: "cache_ok c" and p: "p \<in> set (list c)"
  shows "entries (promote c p now) =
           (heap c p)\<lparr>timeIn := now\<rparr> # filter (\<lambda>e. token (tok e) \<noteq> key_of c p) (entries c)"
proof -
  have d: "distinct (list c)" using ok by (simp add: cache_ok_def)
  have inj: "inj_on (key_of c) (set (list c))" by (rule cache_ok_inj[OF ok])
  have f: "filter (\<lambda>q. q \<noteq> p) (list c) = filter (\<lambda>q. key_of c q \<noteq> key_of c p) (list c)"
    using inj p by (intro filter_cong) (auto dest: inj_onD)
  have "map ((heap c)(p := (heap c p)\<lparr>timeIn := now\<rparr>)) (filter (\<lambda>q. q \<noteq> p) (list c))
          = map (heap c) (filter (\<lambda>q. q \<noteq> p) (list c))"
    by (rule map_cong) auto
  also have "\<dots> = filter (\<lambda>e. token (tok e) \<noteq> key_of c p) (entries c)"
    unfolding f by (simp add: entries_def filter_map comp_def key_of_def)
  finally show ?thesis
    using p d by (simp add: entries_def promote_def remove1_filter_distinct)
qed

lemma entries_replace:
  assumes ok: "cache_ok c" and f: "map_of (items c) (token t) = Some p"
  shows "entries (promote (setTok c p t) p now) =
           \<lparr>tok = t, timeIn = now\<rparr> # filter (\<lambda>e. token (tok e) \<noteq> token t) (entries c)"
proof -
  have p: "p \<in> set (list c)" and k: "key_of c p = token t"
    using cache_ok_lookup[OF ok] f by simp_all
  have ok': "cache_ok (setTok c p t)" using ok k by (simp add: cache_ok_setTok)
  have inj: "inj_on (key_of c) (set (list c))" by (rule cache_ok_inj[OF ok])
  have k': "key_of (setTok c p t) p = token t" by (simp add: key_of_def setTok_def)
  have "filter (\<lambda>e. token (tok e) \<noteq> token t) (entries (setTok c p t))
        = filter (\<lambda>e. token (tok e) \<noteq> token t) (entries c)"
  proof -
    let ?h = "heap (setTok c p t)"
    let ?P = "\<lambda>e. token (tok e) \<noteq> token t"
    have a: "filter (?P \<circ> ?h) (list c) = filter (?P \<circ> heap c) (list c)"
      using k by (intro filter_cong) (auto simp: setTok_def key_of_def)
    have b: "map ?h (filter (?P \<circ> heap c) (list c)) = map (heap c) (filter (?P \<circ> heap c) (list c))"
      using k by (intro map_cong) (auto simp: setTok_def key_of_def)
    show ?thesis
      unfolding entries_def filter_map using a b by (simp add: setTok_def)
  qed
  then show ?thesis
    using entries_promote[OF ok', of p now] p k' by (simp add: setTok_def)
qed

lemma addToken_cases:
  "addToken c t now =
     (if remCapacity c \<le> 0
      then if list c = [] then (c, False) else (afterLookup (fst (trimCache c now)) t now, True)
      else (afterLookup c t now, True))"
proof (cases "remCapacity c \<le> 0 \<and> list c \<noteq> []")
  case True
  then have "snd (trimCache c now)" by (simp add: trimCache_success)
  then show ?thesis using True
    by (cases "trimCache c now") (auto simp: addToken_def afterLookup_def split: option.splits)
next
  case False
  then show ?thesis
    by (auto simp: addToken_def afterLookup_def trimCache_empty split: option.splits)
qed

lemma afterLookup_front:
  assumes ok: "cache_ok c1"
  shows "entries (afterLookup c1 t now) =
           \<lparr>tok = t, timeIn = now\<rparr> # filter (\<lambda>e. token (tok e) \<noteq> token t) (entries c1)"
proof (cases "map_of (items c1) (token t)")
  case None
  then have "token t \<notin> set (keys c1)" using cache_ok_lookup_None[OF ok] by simp
  then have "filter (\<lambda>e. token (tok e) \<noteq> token t) (entries c1) = entries c1"
    by (force simp: keys_entries filter_id_conv)
  then show ?thesis using None by (simp add: afterLookup_def entries_insertNew[OF ok])
next
  case (Some p)
  then show ?thesis by (simp add: afterLookup_def entries_replace[OF ok])
qed

lemma afterLookup_list:
  assumes ok: "cache_ok c1"
  shows "set (list (afterLookup c1 t now)) \<subseteq> insert (nextAddr c1) (set (list c1))"
  by (auto simp: afterLookup_def promote_def setTok_def insertNew_fields split: option.splits if_splits)

lemma getToken_hit:
  assumes ok: "cache_ok c" and f: "map_of (items c) k = Some p"
  shows "getToken c k now = (promote c p now, tok (heap c p), None)"
    and "entries (promote c p now) =
           (heap c p)\<lparr>timeIn := now\<rparr> # filter (\<lambda>e. token (tok e) \<noteq> k) (entries c)"
    and "map_of (items (promote c p now)) k = Some p"
proof -
  have p: "p \<in> set (list c)" and k: "key_of c p = k"
    using cache_ok_lookup[OF ok] f by simp_all
  show "getToken c k now = (promote c p now, tok (heap c p), None)"
    using f by (simp add: getToken_def Let_def promote_def)
  show "entries (promote c p now) =
           (heap c p)\<lparr>timeIn := now\<rparr> # filter (\<lambda>e. token (tok e) \<noteq> k) (entries c)"
    using entries_promote[OF ok p, of now] k by simp
  show "map_of (items (promote c p now)) k = Some p" using f by simp
qed

lemma getToken_miss:
  "map_of (items c) k = None \<Longrightarrow>
     getToken c k now = (c, emptyToken, Some (''Could not find token for '' @ k @ ''.''))"
  by (simp add: getToken_def)

lemma addToken_evicts_tail:
  assumes ok: "cache_ok c" and r: "remCapacity c \<le> 0" and ne: "list c \<noteq> []"
  shows "last (list c) \<notin> set (list (fst (addToken c t now)))"
proof -
  let ?c1 = "fst (trimCache c now)"
  have ok1: "cache_ok ?c1" using ok by (simp add: trimCache_def cache_ok_trimLoop)
  have n1: "nextAddr ?c1 = nextAddr c" by (simp add: trimCache_def trimLoop_frame)
  have "last (list c) \<in> set (list c)" using ne by simp
  then have "last (list c) < nextAddr c" using ok by (auto simp: cache_ok_def list_all_iff)
  then have "last (list c) \<notin> insert (nextAddr ?c1) (set (list ?c1))"
    using trimCache_drops_tail[OF ok ne, of now] n1 by simp
  then have "last (list c) \<notin> set (list (afterLookup ?c1 t now))"
    using afterLookup_list[OF ok1, of t now] by blast
  then show ?thesis using r ne by (simp add: addToken_cases)
qed

text \<open>
  C4, as the code has it, for a cache whose map and list agree. \<^verbatim>\<open>addToken\<close> looks at
  the remaining capacity first: above zero it evicts nothing, and the token becomes the
  most recently used entry, in place of the entry of the same identifier if there is one.
  At zero (or below) it evicts first, whether or not the identifier is present: the tail
  of the list goes, and the token becomes the most recently used of what \<^verbatim>\<open>trimCache\<close>
  has left; with nothing to evict it returns false. \<^verbatim>\<open>getToken\<close> on a hit returns the
  token, moves the entry to the front with a new time stamp and leaves it in the map, so
  that it is found again; on a miss it returns the error and changes nothing.
\<close>

theorem put_get_semantics:
  assumes "cache_ok c"
  shows "(0 < remCapacity c \<longrightarrow>
            snd (addToken c t now) \<and>
            entries (fst (addToken c t now)) =
              \<lparr>tok = t, timeIn = now\<rparr> # filter (\<lambda>e. token (tok e) \<noteq> token t) (entries c)) \<and>
         (remCapacity c \<le> 0 \<and> list c \<noteq> [] \<longrightarrow>
            snd (addToken c t now) \<and>
            last (list c) \<notin> set (list (fst (addToken c t now))) \<and>
            entries (fst (addToken c t now)) =
              \<lparr>tok = t, timeIn = now\<rparr> #
                filter (\<lambda>e. token (tok e) \<noteq> token t) (entries (fst (trimCache c now)))) \<and>
         (remCapacity c \<le> 0 \<and> list c = [] \<longrightarrow> addToken c t now = (c, False)) \<and>
         (\<forall>p. map_of (items c) k = Some p \<longrightarrow>
            getToken c k now = (promote c p now, tok (heap c p), None) \<and>
            entries (promote c p now) =
              (heap c p)\<lparr>timeIn := now\<rparr> # filter (\<lambda>e. token (tok e) \<noteq> k) (entries c) \<and>
            map_of (items (promote c p now)) k = Some p) \<and>
         (map_of (items c) k = None \<longrightarrow>
            getToken c k now = (c, emptyToken, Some (''Could not find token for '' @ k @ ''.'')))"
proof -
  have ok1: "cache_ok (fst (trimCache c now))"
    using assms by (simp add: trimCache_def cache_ok_trimLoop)
  have a: "0 < remCapacity c \<longrightarrow>
            snd (addToken c t now) \<and>
            entries (fst (addToken c t now)) =
              \<lparr>tok = t, timeIn = now\<rparr> # filter (\<lambda>e. token (tok e) \<noteq> token t) (entries c)"
    by (simp add: addToken_cases afterLookup_front[OF assms])
  have b: "remCapacity c \<le> 0 \<and> list c \<noteq> [] \<longrightarrow>
            snd (addToken c t now) \<and>
            last (list c) \<notin> set (list (fst (addToken c t now))) \<and>
            entries (fst (addToken c t now)) =
              \<lparr>tok = t, timeIn = now\<rparr> #
                filter (\<lambda>e. token (tok e) \<noteq> token t) (entries (fst (trimCache c now)))"
    using addToken_evicts_tail[OF assms, of t now]
    by (simp add: addToken_cases afterLookup_front[OF ok1])
  have c: "remCapacity c \<le> 0 \<and> list c = [] \<longrightarrow> addToken c t now = (c, False)"
    by (simp add: addToken_cases)
  have d: "\<forall>p. map_of (items c) k = Some p \<longrightarrow>
            getToken c k now = (promote c p now, tok (heap c p), None) \<and>
            entries (promote c p now) =
              (heap c p)\<lparr>timeIn := now\<rparr> # filter (\<lambda>e. token (tok e) \<noteq> k) (entries c) \<and>
            map_of (items (promote c p now)) k = Some p"
    using getToken_hit[OF assms] by blast
  have e: "map_of (items c) k = None \<longrightarrow>
            getToken c k now = (c, emptyToken, Some (''Could not find token for '' @ k @ ''.''))"
    by (simp add: getToken_miss)
  from a b c d e show ?thesis by blast
qed

theorem put_get_semantics_witness:
  "cache_ok halfAB \<and> 0 < remCapacity halfAB \<and>
   snd (addToken halfAB \<lparr>token = ''a'', secret = ''new''\<rparr> 7) \<and>
   entries (fst (addToken halfAB \<lparr>token = ''a'', secret = ''new''\<rparr> 7)) =
     [\<lparr>tok = \<lparr>token = ''a'', secret = ''new''\<rparr>, timeIn = 7\<rparr>, \<lparr>tok = tk ''b'', timeIn = 0\<rparr>] \<and>
   cache_ok fullAB \<and> remCapacity fullAB \<le> 0 \<and> list fullAB \<noteq> [] \<and>
   last (list fullAB) \<notin> set (list (fst (addToken fullAB \<lparr>token = ''b'', secret = ''new''\<rparr> 7))) \<and>
   entries (fst (addToken fullAB \<lparr>token = ''b'', secret = ''new''\<rparr> 7)) =
     [\<lparr>tok = \<lparr>token = ''b'', secret = ''new''\<rparr>, timeIn = 7\<rparr>] \<and>
   addToken (newTokenCache 0 1000) (tk ''c'') 7 = (newTokenCache 0 1000, False) \<and>
   map_of (items halfAB) ''a'' = Some 0 \<and>
   getToken halfAB ''a'' 7 = (promote halfAB 0 7, tk ''a'', None) \<and>
   entries (promote halfAB 0 7) = [\<lparr>tok = tk ''a'', timeIn = 7\<rparr>, \<lparr>tok = tk ''b'', timeIn = 0\<rparr>] \<and>
   map_of (items (promote halfAB 0 7)) ''a'' = Some 0 \<and>
   map_of (items halfAB) ''c'' = None \<and>
   getToken halfAB ''c'' 7 = (halfAB, emptyToken, Some ''Could not find token for c.'')"
proof -
  have ok1: "cache_ok halfAB" unfolding halfAB_def by (intro cache_ok_run cache_ok_new)
  have ok2: "cache_ok fullAB" unfolding fullAB_def by (intro cache_ok_run cache_ok_new)
  have ok3: "cache_ok (newTokenCache 0 1000)" by (rule cache_ok_new)
  have r1: "0 < remCapacity halfAB" by code_simp
  have r2: "remCapacity fullAB \<le> 0 \<and> list fullAB \<noteq> []" by code_simp
  have r3: "remCapacity (newTokenCache 0 1000) \<le> 0 \<and> list (newTokenCache 0 1000) = []"
    by (simp add: newTokenCache_def)
  have hit: "map_of (items halfAB) ''a'' = Some 0" by code_simp
  have miss: "map_of (items halfAB) ''c'' = None" by code_simp
  have e1: "entries halfAB = [\<lparr>tok = tk ''b'', timeIn = 0\<rparr>, \<lparr>tok = tk ''a'', timeIn = 0\<rparr>]" by code_simp
  have e2: "entries (fst (trimCache fullAB 7)) = [\<lparr>tok = tk ''b'', timeIn = 0\<rparr>]" by code_simp
  have h: "heap halfAB 0 = \<lparr>tok = tk ''a'', timeIn = 0\<rparr>" by code_simp
  note a = put_get_semantics[OF ok1, of "\<lparr>token = ''a'', secret = ''new''\<rparr>" 7 "''a''"]
  note b = put_get_semantics[OF ok2, of "\<lparr>token = ''b'', secret = ''new''\<rparr>" 7 "''a''"]
  note c = put_get_semantics[OF ok3, of "tk ''c''" 7 "''a''"]
  note d = put_get_semantics[OF ok1, of "\<lparr>token = ''a'', secret = ''new''\<rparr>" 7 "''c''"]
  have A: "snd (addToken halfAB \<lparr>token = ''a'', secret = ''new''\<rparr> 7) \<and>
   entries (fst (addToken halfAB \<lparr>token = ''a'', secret = ''new''\<rparr> 7)) =
     [\<lparr>tok = \<lparr>token = ''a'', secret = ''new''\<rparr>, timeIn = 7\<rparr>, \<lparr>tok = tk ''b'', timeIn = 0\<rparr>]"
    using a r1 by (simp add: e1 tk_def)
  have B: "last (list fullAB) \<notin> set (list (fst (addToken fullAB \<lparr>token = ''b'', secret = ''new''\<rparr> 7))) \<and>
   entries (fst (addToken fullAB \<lparr>token = ''b'', secret = ''new''\<rparr> 7)) =
     [\<lparr>tok = \<lparr>token = ''b'', secret = ''new''\<rparr>, timeIn = 7\<rparr>]"
    using b r2 by (simp add: e2 tk_def)
  have C: "addToken (newTokenCache 0 1000) (tk ''c'') 7 = (newTokenCache 0 1000, False)"
    using c r3 by blast
  have D: "getToken halfAB ''a'' 7 = (promote halfAB 0 7, tk ''a'', None) \<and>
   entries (promote halfAB 0 7) = [\<lparr>tok = tk ''a'', timeIn = 7\<rparr>, \<lparr>tok = tk ''b'', timeIn = 0\<rparr>] \<and>
   map_of (items (promote halfAB 0 7)) ''a'' = Some 0"
    using a hit by (simp add: e1 h tk_def)
  have E: "getToken halfAB ''c'' 7 = (halfAB, emptyToken, Some ''Could not find token for c.'')"
    using d miss by simp
  from ok1 ok2 r1 r2 hit miss A B C D E show ?thesis by blast
qed

text \<open>
  C4 as stated fails: the full cache holds \<open>a\<close> and \<open>b\<close>; a put of the identifier \<open>b\<close>,
  which is present, runs the eviction all the same, and \<open>a\<close> is gone.
\<close>

theorem update_runs_eviction:
  "remCapacity fullAB = 0 \<and> keys fullAB = [''b'', ''a''] \<and>
   map_of (items fullAB) ''b'' = Some 1 \<and>
   keys (fst (addToken fullAB \<lparr>token = ''b'', secret = ''new''\<rparr> 0)) = [''b'']"
  by code_simp

section \<open>The base string and the signature\<close>





lemma QueryEscape_Nil [simp]: "QueryEscape [] = []"
  by (simp add: QueryEscape_def)








section \<open>The flow controller\<close>





lemma fetchUserInfo_error:
  assumes "fetchUserInfo lib w provider accessToken verifier = (calls, Returns (user, Some e))"
  shows "user = zeroUserData"
  using assms
  by (auto simp: fetchUserInfo_def Let_def split: prod.splits result.splits option.splits)




text \<open>
  C8. Without \<^verbatim>\<open>oauth_token\<close> or without \<^verbatim>\<open>oauth_verifier\<close> \<^verbatim>\<open>ProcessResponse\<close> returns
  its error with no HTTP call and leaves the cache alone; with both and a token that the
  cache does not hold it returns the invalid-token error, again with no HTTP call; and
  whenever it returns an error, the user data it returns is the zero value.
\<close>

theorem ProcessResponse_failures:
  "(FormValue request oauthToken = [] \<or> FormValue request oauthVerifier = [] \<longrightarrow>
      ProcessResponse lib w provider tokenCtx request =
        (tokenCtx, [], Returns (zeroUserData, Some ''Invalid request: missing token or verifier.''))) \<and>
   (FormValue request oauthToken \<noteq> [] \<and> FormValue request oauthVerifier \<noteq> [] \<and>
    map_of (items tokenCtx) (FormValue request oauthToken) = None \<longrightarrow>
      ProcessResponse lib w provider tokenCtx request =
        (tokenCtx, [], Returns (zeroUserData, Some ''Invalid request: could not validate oauth token.''))) \<and>
   (\<forall>user e. snd (snd (ProcessResponse lib w provider tokenCtx request)) = Returns (user, Some e) \<longrightarrow>
      user = zeroUserData)"
proof -
  have a: "FormValue request oauthToken = [] \<or> FormValue request oauthVerifier = [] \<longrightarrow>
      ProcessResponse lib w provider tokenCtx request =
        (tokenCtx, [], Returns (zeroUserData, Some ''Invalid request: missing token or verifier.''))"
    by (auto simp: ProcessResponse_def Let_def)
  have b: "FormValue request oauthToken \<noteq> [] \<and> FormValue request oauthVerifier \<noteq> [] \<and>
    map_of (items tokenCtx) (FormValue request oauthToken) = None \<longrightarrow>
      ProcessResponse lib w provider tokenCtx request =
        (tokenCtx, [], Returns (zeroUserData, Some ''Invalid request: could not validate oauth token.''))"
    by (auto simp: ProcessResponse_def Let_def getToken_def)
  have c: "\<forall>user e. snd (snd (ProcessResponse lib w provider tokenCtx request)) = Returns (user, Some e) \<longrightarrow>
      user = zeroUserData"
    by (auto simp: ProcessResponse_def Let_def
        split: if_splits prod.splits result.splits option.splits dest: fetchUserInfo_error)
  from a b c show ?thesis by blast
qed

theorem ProcessResponse_failures_witness:
  "snd (ProcessResponse demoLib demoWorld demoProvider demoCache [(''oauth_token'', ''RT'')]) =
     ([], Returns (zeroUserData, Some ''Invalid request: missing token or verifier.'')) \<and>
   snd (ProcessResponse demoLib demoWorld demoProvider demoCache
          [(''oauth_token'', ''XX''), (''oauth_verifier'', ''V'')]) =
     ([], Returns (zeroUserData, Some ''Invalid request: could not validate oauth token.'')) \<and>
   snd (ProcessResponse demoLib silentWorld demoProvider demoCache
          [(''oauth_token'', ''RT''), (''oauth_verifier'', ''V'')]) =
     ([ClientDo ''POST'' ''https://p/access''
          (createHeader (toParamList
             (AList.update oauthSignature ''c2ln''
                (generateParams silentWorld demoProvider AccessTokenLeg ''RT'' ''RS'' ''V''))
             [oauthVerifier, oauthNonce, oauthSignature, oauthToken, oauthConsumerKey,
              oauthTimestamp, oauthSignatureMethod, oauthVersion])),
       ClientDo ''GET'' ''https://p/me''
          (createHeader (toParamList
             (AList.update oauthSignature ''c2ln''
                (generateParams silentWorld demoProvider UserInfoLeg ''AT'' ''AS'' ''V''))
             [oauthConsumerKey, oauthNonce, oauthSignature, oauthSignatureMethod,
              oauthTimestamp, oauthToken, oauthVersion]))],
      Returns (zeroUserData, Some ''EOF''))"
proof -
  let ?r1 = "[(''oauth_token'', ''RT'')]"
  let ?r2 = "[(''oauth_token'', ''XX''), (''oauth_verifier'', ''V'')]"
  let ?r3 = "[(''oauth_token'', ''RT''), (''oauth_verifier'', ''V'')]"
  have h1: "FormValue ?r1 oauthToken = [] \<or> FormValue ?r1 oauthVerifier = []" by code_simp
  have h2: "FormValue ?r2 oauthToken \<noteq> [] \<and> FormValue ?r2 oauthVerifier \<noteq> [] \<and>
    map_of (items demoCache) (FormValue ?r2 oauthToken) = None" by code_simp
  have e3: "snd (snd (ProcessResponse demoLib silentWorld demoProvider demoCache ?r3)) =
      Returns (\<lparr>UserID = [], Email = [], FullName = [], GivenName = [], FamilyName = [],
      ScreenName = [], PhotoURL = [], OAuthProvider = [], OAuthVersion = [],
      OAuthToken = [], OAuthTokenType = []\<rparr>, Some ''EOF'')" by code_simp
  have c3: "fst (snd (ProcessResponse demoLib silentWorld demoProvider demoCache ?r3)) =
     [ClientDo ''POST'' ''https://p/access''
          (createHeader (toParamList
             (AList.update oauthSignature ''c2ln''
                (generateParams silentWorld demoProvider AccessTokenLeg ''RT'' ''RS'' ''V''))
             [oauthVerifier, oauthNonce, oauthSignature, oauthToken, oauthConsumerKey,
              oauthTimestamp, oauthSignatureMethod, oauthVersion])),
       ClientDo ''GET'' ''https://p/me''
          (createHeader (toParamList
             (AList.update oauthSignature ''c2ln''
                (generateParams silentWorld demoProvider UserInfoLeg ''AT'' ''AS'' ''V''))
             [oauthConsumerKey, oauthNonce, oauthSignature, oauthSignatureMethod,
              oauthTimestamp, oauthToken, oauthVersion]))]" by code_simp
  note t1 = ProcessResponse_failures[of ?r1 demoLib demoWorld demoProvider demoCache]
  note t2 = ProcessResponse_failures[of ?r2 demoLib demoWorld demoProvider demoCache]
  note t3 = ProcessResponse_failures[of ?r3 demoLib silentWorld demoProvider demoCache]
  from t1 h1 have a: "snd (ProcessResponse demoLib demoWorld demoProvider demoCache ?r1) =
     ([], Returns (zeroUserData, Some ''Invalid request: missing token or verifier.''))" by simp
  from t2 h2 have b: "snd (ProcessResponse demoLib demoWorld demoProvider demoCache ?r2) =
     ([], Returns (zeroUserData, Some ''Invalid request: could not validate oauth token.''))" by simp
  from t3 e3 have "\<lparr>UserID = [], Email = [], FullName = [], GivenName = [], FamilyName = [],
      ScreenName = [], PhotoURL = [], OAuthProvider = [], OAuthVersion = [],
      OAuthToken = [], OAuthTokenType = []\<rparr> = zeroUserData" by blast
  with e3 have "snd (snd (ProcessResponse demoLib silentWorld demoProvider demoCache ?r3)) =
      Returns (zeroUserData, Some ''EOF'')" by simp
  with c3 have c: "snd (ProcessResponse demoLib silentWorld demoProvider demoCache ?r3) =
     ([ClientDo ''POST'' ''https://p/access''
          (createHeader (toParamList
             (AList.update oauthSignature ''c2ln''
                (generateParams silentWorld demoProvider AccessTokenLeg ''RT'' ''RS'' ''V''))
             [oauthVerifier, oauthNonce, oauthSignature, oauthToken, oauthConsumerKey,
              oauthTimestamp, oauthSignatureMethod, oauthVersion])),
       ClientDo ''GET'' ''https://p/me''
          (createHeader (toParamList
             (AList.update oauthSignature ''c2ln''
                (generateParams silentWorld demoProvider UserInfoLeg ''AT'' ''AS'' ''V''))
             [oauthConsumerKey, oauthNonce, oauthSignature, oauthSignatureMethod,
              oauthTimestamp, oauthToken, oauthVersion]))],
      Returns (zeroUserData, Some ''EOF''))" by (simp add: prod_eq_iff)
  from a b c show ?thesis by blast
qed



text \<open>
  C10. When the request-token leg returns a token and no error, \<^verbatim>\<open>GetRedirectURL\<close>
  returns the authorization URL with that token and no error, whatever the cache is and
  whatever \<^verbatim>\<open>addToken\<close> answers: its result is the same for any two caches.
\<close>

theorem GetRedirectURL_ignores_cache:
  "(snd (fetchOAuthRequestToken lib w provider) = Returns (tkn, None) \<longrightarrow>
      snd (snd (GetRedirectURL lib w provider tokenCtx)) =
        Returns (AuthURL (config provider) @ ''?oauth_token='' @ token tkn, None)) \<and>
   snd (GetRedirectURL lib w provider tokenCtx) = snd (GetRedirectURL lib w provider tokenCtx')"
  by (auto simp: GetRedirectURL_def split: prod.splits result.splits option.splits)

theorem GetRedirectURL_ignores_cache_witness:
  "snd (addToken (newTokenCache 0 300) \<lparr>token = ''AT'', secret = ''AS''\<rparr> (cacheClock demoWorld)) = False \<and>
   snd (fetchOAuthRequestToken demoLib demoWorld demoProvider) =
     Returns (\<lparr>token = ''AT'', secret = ''AS''\<rparr>, None) \<and>
   snd (snd (GetRedirectURL demoLib demoWorld demoProvider (newTokenCache 0 300))) =
     Returns (''https://p/authorize?oauth_token=AT'', None)"
proof -
  have f: "snd (addToken (newTokenCache 0 300) \<lparr>token = ''AT'', secret = ''AS''\<rparr> (cacheClock demoWorld)) = False"
    by code_simp
  have h: "snd (fetchOAuthRequestToken demoLib demoWorld demoProvider) =
     Returns (\<lparr>token = ''AT'', secret = ''AS''\<rparr>, None)" by code_simp
  have u: "AuthURL (config demoProvider) @ ''?oauth_token='' @ token \<lparr>token = ''AT'', secret = ''AS''\<rparr> =
     ''https://p/authorize?oauth_token=AT''" by code_simp
  from GetRedirectURL_ignores_cache[of demoLib demoWorld demoProvider "\<lparr>token = ''AT'', secret = ''AS''\<rparr>"
      "newTokenCache 0 300" "newTokenCache 0 300"] h
  have "snd (snd (GetRedirectURL demoLib demoWorld demoProvider (newTokenCache 0 300))) =
     Returns (AuthURL (config demoProvider) @ ''?oauth_token='' @ token \<lparr>token = ''AT'', secret = ''AS''\<rparr>, None)"
    by blast
  with f h u show ?thesis by simp
qed

end
